theory Spec2Isabelle
  imports Main
begin

section \<open>The object decoder of git-from-scratch\<close>

text \<open>
  The program opens one file of \<^verbatim>\<open>.git/objects\<close>, wraps it in a zlib reader and a
  \<^verbatim>\<open>bufio.Scanner\<close> that splits the stream into single bytes, decodes the header
  \<^verbatim>\<open><type> <length>\0\<close> and prints the body according to the type.

  Go's \<^verbatim>\<open>byte\<close> and the elements of a Go \<^verbatim>\<open>string\<close> are both 8-bit values, and
  \<^verbatim>\<open>string(bytes)\<close> copies them unchanged, so both are modelled by \<^typ>\<open>char\<close>
  (an 8-bit value in HOL) and a byte slice and a string are both a \<^typ>\<open>char list\<close>.
  Go's \<^verbatim>\<open>int\<close> is modelled by \<^typ>\<open>int\<close>; on the 64-bit platforms \<^verbatim>\<open>strconv.Atoi\<close>
  only returns values between \<open>- 2 ^ 63\<close> and \<open>2 ^ 63 - 1\<close>, so the loop counter
  of \<^verbatim>\<open>scanCountBytes\<close>, which runs from 1 to at most \<open>byteCount + 1\<close>, can only leave
  that range after the stream has delivered \<open>2 ^ 63 - 1\<close> bytes.
\<close>

type_synonym byte = char

definition NUL :: byte where
  "NUL = CHR 0x00"

definition ObjectShaLength :: int where
  "ObjectShaLength = 20"

definition TruncatedSize :: int where
  "TruncatedSize = 3072"

record objectHeader =
  objectType :: string
  length' :: int

subsection \<open>The state: scanner and standard output\<close>

text \<open>
  The scanner hands out the bytes of the reader one by one. A reader delivers a finite
  sequence of bytes and then ends, either cleanly (\<^verbatim>\<open>io.EOF\<close>, after which
  \<^verbatim>\<open>Scanner.Err()\<close> is \<^verbatim>\<open>nil\<close>) or with an error (a corrupt zlib stream): \<open>input\<close> holds
  the bytes not yet delivered and \<open>inputErr\<close> says how the reader ends. Every byte read
  before the end is delivered as a token before \<^verbatim>\<open>Scan\<close> returns false.
  \<open>stdout\<close> is what the program has printed so far.
\<close>

record state =
  input :: "byte list"
  inputErr :: bool
  stdout :: string

text \<open>
  The ways the program stops early. \<^verbatim>\<open>log.Fatal\<close> exits the process, \<^verbatim>\<open>panic\<close> unwinds it;
  nothing in the program recovers, so both end the run with what was printed until then.
\<close>

datatype numError = ErrSyntax | ErrRange

datatype error =
    LogFatal
  | PanicUnexpectedEOF
  | PanicInvalidHeader "string list"
  | PanicNumError numError
  | PanicEndOfMetadata
  | PanicComponents
  | PanicSliceBounds

type_synonym 'a result = "error + 'a"

subsection \<open>Reading bytes\<close>

definition scanSingleByte :: "state \<Rightarrow> bool \<Rightarrow> (byte \<times> bool) result \<times> state" where
  "scanSingleByte s throwOnEOF =
     (case input s of
        [] \<Rightarrow>
          if inputErr s then (Inl LogFatal, s)
          else if throwOnEOF then (Inl PanicUnexpectedEOF, s)
          else (Inr (NUL, True), s)
      | b # bs \<Rightarrow> (Inr (b, False), s\<lparr>input := bs\<rparr>))"

lemma scanSingleByte_length:
  "scanSingleByte s t = (Inr (b, False), s') \<Longrightarrow> length (input s') < length (input s)"
  by (auto simp: scanSingleByte_def split: list.splits if_splits)

text \<open>The loop of \<^verbatim>\<open>scanBytesUntilDelimiter\<close>, with the slice built so far.\<close>

function scanUntilLoop :: "state \<Rightarrow> byte \<Rightarrow> bool \<Rightarrow> byte list \<Rightarrow> byte list result \<times> state" where
  "scanUntilLoop s delimiter throwOnEOF scannedBytes =
     (case scanSingleByte s throwOnEOF of
        (Inl e, s') \<Rightarrow> (Inl e, s')
      | (Inr (byteRead, isFailure), s') \<Rightarrow>
          if isFailure then (Inr scannedBytes, s')
          else if byteRead = delimiter then (Inr (scannedBytes @ [byteRead]), s')
          else scanUntilLoop s' delimiter throwOnEOF (scannedBytes @ [byteRead]))"
  by pat_completeness auto
termination
  by (relation "measure (\<lambda>(s, d, t, acc). length (input s))")
     (auto dest: scanSingleByte_length [OF sym])

definition scanBytesUntilDelimiter :: "state \<Rightarrow> byte \<Rightarrow> bool \<Rightarrow> byte list result \<times> state" where
  "scanBytesUntilDelimiter s delimiter throwOnEOF = scanUntilLoop s delimiter throwOnEOF []"

text \<open>
  The loop of \<^verbatim>\<open>scanCountBytes\<close>: \<^verbatim>\<open>for i := 1; i <= byteCount; i++\<close>. The call of
  \<^verbatim>\<open>scanSingleByte\<close> passes the constant \<^verbatim>\<open>true\<close>, and the failure flag it returns is
  dropped.
\<close>

function scanCountLoop :: "state \<Rightarrow> int \<Rightarrow> int \<Rightarrow> byte list \<Rightarrow> byte list result \<times> state" where
  "scanCountLoop s byteCount i scannedBytes =
     (if i \<le> byteCount then
        (case scanSingleByte s True of
           (Inl e, s') \<Rightarrow> (Inl e, s')
         | (Inr (byteRead, _), s') \<Rightarrow>
             scanCountLoop s' byteCount (i + 1) (scannedBytes @ [byteRead]))
      else (Inr scannedBytes, s))"
  by pat_completeness auto
termination
  by (relation "measure (\<lambda>(s, byteCount, i, acc). nat (byteCount + 1 - i))") auto

declare scanUntilLoop.simps [simp del] scanCountLoop.simps [simp del]

definition scanCountBytes :: "state \<Rightarrow> int \<Rightarrow> bool \<Rightarrow> byte list result \<times> state" where
  "scanCountBytes s byteCount throwOnEOF = scanCountLoop s byteCount 1 []"

lemma scanUntilLoop_length:
  "scanUntilLoop s d t acc = (Inr bs, s') \<Longrightarrow>
     length (input s') + length bs = length (input s) + length acc"
proof (induction s d t acc rule: scanUntilLoop.induct)
  case (1 s d t acc)
  show ?case
  proof (cases "input s")
    case Nil
    with "1.prems" show ?thesis
      by (simp add: scanUntilLoop.simps [of s] scanSingleByte_def split: if_splits)
  next
    case (Cons b bs')
    show ?thesis
    proof (cases "b = d")
      case True
      with Cons "1.prems" show ?thesis
        by (auto simp: scanUntilLoop.simps [of s] scanSingleByte_def)
    next
      case False
      have step: "scanSingleByte s t = (Inr (b, False), s\<lparr>input := bs'\<rparr>)"
        using Cons by (simp add: scanSingleByte_def)
      have "scanUntilLoop (s\<lparr>input := bs'\<rparr>) d t (acc @ [b]) = (Inr bs, s')"
        using "1.prems" False step by (simp add: scanUntilLoop.simps [of s])
      from "1.IH" [OF step [symmetric] refl refl _ False this] Cons
      show ?thesis by simp
    qed
  qed
qed

lemma scanBytesUntilDelimiter_length:
  "scanBytesUntilDelimiter s d t = (Inr bs, s') \<Longrightarrow> bs \<noteq> [] \<Longrightarrow>
     length (input s') < length (input s)"
  using scanUntilLoop_length [of s d t "[]" bs s']
  by (cases bs) (auto simp: scanBytesUntilDelimiter_def)

lemma scanCountLoop_length:
  "scanCountLoop s n i acc = (r, s') \<Longrightarrow> length (input s') \<le> length (input s)"
proof (induction s n i acc rule: scanCountLoop.induct)
  case (1 s n i acc)
  show ?case
  proof (cases "i \<le> n")
    case False
    with "1.prems" show ?thesis
      by (simp add: scanCountLoop.simps [of s])
  next
    case True
    show ?thesis
    proof (cases "input s")
      case Nil
      with True "1.prems" show ?thesis
        by (auto simp: scanCountLoop.simps [of s] scanSingleByte_def split: if_splits)
    next
      case (Cons b bs')
      have step: "scanSingleByte s True = (Inr (b, False), s\<lparr>input := bs'\<rparr>)"
        using Cons by (simp add: scanSingleByte_def)
      have "scanCountLoop (s\<lparr>input := bs'\<rparr>) n (i + 1) (acc @ [b]) = (r, s')"
        using "1.prems" True step by (simp add: scanCountLoop.simps [of s])
      from "1.IH" [OF True step [symmetric] refl refl this] Cons
      show ?thesis by simp
    qed
  qed
qed

lemma scanCountBytes_length:
  "scanCountBytes s n t = (r, s') \<Longrightarrow> length (input s') \<le> length (input s)"
  by (simp add: scanCountBytes_def scanCountLoop_length)

subsection \<open>Library functions the decoder calls\<close>

text \<open>
  These are functions of the Go standard library, modelled after its documentation and
  sources for the arguments the program passes.

  \<^verbatim>\<open>strings.Split(s, " ")\<close>: the separator is the one-byte string \<^verbatim>\<open>" "\<close>, passed here
  as that byte. As in Go's \<^verbatim>\<open>genSplit\<close>, the text before the first separator is a field
  and the splitting goes on behind it; a string without separator is one field.
\<close>

function Split :: "string \<Rightarrow> char \<Rightarrow> string list" where
  "Split s sep =
     (case dropWhile (\<lambda>c. c \<noteq> sep) s of
        [] \<Rightarrow> [s]
      | _ # rest \<Rightarrow> takeWhile (\<lambda>c. c \<noteq> sep) s # Split rest sep)"
  by pat_completeness auto
termination
proof (relation "measure (\<lambda>(s, sep). length s)")
  show "wf (measure (\<lambda>(s, sep). length s))" by simp
next
  fix s :: string and sep x rest
  assume "dropWhile (\<lambda>c. c \<noteq> sep) s = x # rest"
  then have "length (x # rest) \<le> length s"
    by (metis length_dropWhile_le)
  then show "((rest, sep), (s, sep)) \<in> measure (\<lambda>(s, sep). length s)"
    by simp
qed

text \<open>
  \<^verbatim>\<open>strconv.Atoi\<close> is \<^verbatim>\<open>ParseInt(s, 10, 0)\<close> converted to \<^verbatim>\<open>int\<close>, here for the 64-bit
  \<^verbatim>\<open>int\<close>. \<^verbatim>\<open>ParseUint\<close> accumulates the digits in a \<^verbatim>\<open>uint64\<close>; the sum \<open>n * 10 + d\<close>
  wraps around at \<open>2 ^ 64\<close> and the wrapped value is what the overflow test looks at.
\<close>

definition isDigit :: "char \<Rightarrow> bool" where
  "isDigit c = (of_char (CHR ''0'') \<le> (of_char c :: nat) \<and> (of_char c :: nat) \<le> of_char (CHR ''9''))"

definition digitVal :: "char \<Rightarrow> nat" where
  "digitVal c = of_char c - of_char (CHR ''0'')"

definition maxUint64 :: nat where
  "maxUint64 = 2 ^ 64 - 1"

fun parseUintLoop :: "nat \<Rightarrow> string \<Rightarrow> numError + nat" where
  "parseUintLoop n [] = Inr n"
| "parseUintLoop n (c # cs) =
     (if \<not> isDigit c then Inl ErrSyntax
      else if n \<ge> maxUint64 div 10 + 1 then Inl ErrRange
      else
        (let n' = n * 10;
             n1 = (n' + digitVal c) mod 2 ^ 64
         in if n1 < n' \<or> n1 > maxUint64 then Inl ErrRange
            else parseUintLoop n1 cs))"

definition ParseUint :: "string \<Rightarrow> numError + nat" where
  "ParseUint s = (if s = [] then Inl ErrSyntax else parseUintLoop 0 s)"

definition ParseInt :: "string \<Rightarrow> numError + int" where
  "ParseInt s =
     (case s of
        [] \<Rightarrow> Inl ErrSyntax
      | c # cs \<Rightarrow>
          (let neg = (c = CHR ''-'');
               s' = (if c = CHR ''+'' \<or> c = CHR ''-'' then cs else s)
           in case ParseUint s' of
                Inl ErrSyntax \<Rightarrow> Inl ErrSyntax
              | r \<Rightarrow>
                  (let un = (case r of Inr n \<Rightarrow> n | Inl _ \<Rightarrow> maxUint64);
                       cutoff = 2 ^ 63
                   in if \<not> neg \<and> un \<ge> cutoff then Inl ErrRange
                      else if neg \<and> un > cutoff then Inl ErrRange
                      else Inr (if neg then - int un else int un))))"

definition Atoi :: "string \<Rightarrow> numError + int" where
  "Atoi s = ParseInt s"

text \<open>The verb \<^verbatim>\<open>%d\<close> of \<^verbatim>\<open>fmt.Printf\<close>: decimal digits, a minus sign for a negative number.\<close>

fun formatUint :: "nat \<Rightarrow> string" where
  "formatUint n =
     (if n < 10 then [char_of (of_char (CHR ''0'') + n)]
      else formatUint (n div 10) @ [char_of (of_char (CHR ''0'') + n mod 10)])"

definition formatInt :: "int \<Rightarrow> string" where
  "formatInt i = (if i < 0 then CHR ''-'' # formatUint (nat (- i)) else formatUint (nat i))"

text \<open>\<^verbatim>\<open>hex.EncodeToString\<close>: two characters of the table per byte, high nibble first.\<close>

definition hextable :: string where
  "hextable = ''0123456789abcdef''"

definition EncodeToString :: "byte list \<Rightarrow> string" where
  "EncodeToString src =
     concat (map (\<lambda>v. [hextable ! (of_char v div 16), hextable ! (of_char v mod 16)]) src)"

text \<open>\<^verbatim>\<open>fmt.Print\<close>, \<^verbatim>\<open>fmt.Printf\<close> and \<^verbatim>\<open>fmt.Println\<close> append to the standard output.\<close>

definition fmtPrint :: "state \<Rightarrow> string \<Rightarrow> state" where
  "fmtPrint s str = s\<lparr>stdout := stdout s @ str\<rparr>"

subsection \<open>The header decoder\<close>

definition parseObjectHeader :: "state \<Rightarrow> objectHeader result \<times> state" where
  "parseObjectHeader s =
     (case scanBytesUntilDelimiter s NUL True of
        (Inl e, s') \<Rightarrow> (Inl e, s')
      | (Inr headerBytes, s') \<Rightarrow>
          if headerBytes = [] then (Inl PanicSliceBounds, s')
          else
            (let headerString = take (length headerBytes - 1) headerBytes;
                 headerComponents = Split headerString (CHR '' '')
             in if length headerComponents \<noteq> 2
                then (Inl (PanicInvalidHeader headerComponents), s')
                else
                  (case Atoi (headerComponents ! 1) of
                     Inl err \<Rightarrow> (Inl (PanicNumError err), s')
                   | Inr objectLen \<Rightarrow>
                       (Inr \<lparr>objectType = headerComponents ! 0, length' = objectLen\<rparr>, s'))))"

subsection \<open>The body decoders\<close>

definition printCommitContent :: "state \<Rightarrow> int \<Rightarrow> unit result \<times> state" where
  "printCommitContent s byteCount =
     (case scanCountBytes s byteCount True of
        (Inl e, s') \<Rightarrow> (Inl e, s')
      | (Inr fileMetadataBytes, s') \<Rightarrow> (Inr (), fmtPrint s' fileMetadataBytes))"

text \<open>
  \<^verbatim>\<open>printBlobContent\<close> as in the program with the \<^verbatim>\<open>-branch\<close> and \<^verbatim>\<open>-hash\<close> flags
  (src/unnamed/part_000).
\<close>

definition printBlobContent :: "state \<Rightarrow> int \<Rightarrow> unit result \<times> state" where
  "printBlobContent s byteCount =
     (let count = (if byteCount > TruncatedSize then TruncatedSize else byteCount)
      in case scanCountBytes s count True of
           (Inl e, s') \<Rightarrow> (Inl e, s')
         | (Inr fileMetadataBytes, s') \<Rightarrow>
             (let s'' = fmtPrint s' fileMetadataBytes
              in if byteCount > TruncatedSize
                 then (Inr (), fmtPrint s'' ''\<newline>\<newline>(... truncated to 3KB)\<newline>'')
                 else (Inr (), s'')))"

text \<open>
  \<^verbatim>\<open>printBlobContent\<close> as in src/hello.go, where the notice has no leading line breaks.
\<close>

definition printBlobContent_hello :: "state \<Rightarrow> int \<Rightarrow> unit result \<times> state" where
  "printBlobContent_hello s byteCount =
     (let count = (if byteCount > TruncatedSize then TruncatedSize else byteCount)
      in case scanCountBytes s count True of
           (Inl e, s') \<Rightarrow> (Inl e, s')
         | (Inr fileMetadataBytes, s') \<Rightarrow>
             (let s'' = fmtPrint s' fileMetadataBytes
              in if byteCount > TruncatedSize
                 then (Inr (), fmtPrint s'' ''(... truncated to 3KB)\<newline>'')
                 else (Inr (), s'')))"

function printTreeContent :: "state \<Rightarrow> unit result \<times> state" where
  "printTreeContent s =
     (case scanBytesUntilDelimiter s NUL False of
        (Inl e, s1) \<Rightarrow> (Inl e, s1)
      | (Inr fileMetadataBytes, s1) \<Rightarrow>
          if length fileMetadataBytes = 0 then (Inr (), s1)
          else if fileMetadataBytes ! (length fileMetadataBytes - 1) \<noteq> NUL
          then (Inl PanicEndOfMetadata, s1)
          else
            (let fileMetadataString = take (length fileMetadataBytes - 1) fileMetadataBytes;
                 fileMetadataComponents = Split fileMetadataString (CHR '' '')
             in if length fileMetadataComponents \<noteq> 2 then (Inl PanicComponents, s1)
                else
                  (case scanCountBytes s1 ObjectShaLength True of
                     (Inl e, s2) \<Rightarrow> (Inl e, s2)
                   | (Inr objectShaBytes, s2) \<Rightarrow>
                       printTreeContent
                         (fmtPrint s2
                            (''fileMode: '' @ fileMetadataComponents ! 0 @
                             '', filename: '' @ fileMetadataComponents ! 1 @
                             '', SHA: '' @ EncodeToString objectShaBytes @ ''\<newline>'')))))"
  by pat_completeness auto
termination
proof (relation "measure (\<lambda>s. length (input s))")
  show "wf (measure (\<lambda>s. length (input s)))" by simp
next
  fix s x1 s1 bs fileMetadataString fileMetadataComponents x2 s2 sha
  assume a: "(x1, s1) = scanBytesUntilDelimiter s NUL False" "x1 = Inr bs"
    "length bs \<noteq> 0"
    and b: "(x2, s2) = scanCountBytes s1 ObjectShaLength True"
  from a have "length (input s1) < length (input s)"
    using scanBytesUntilDelimiter_length [of s NUL False bs s1] by simp
  moreover from b have "length (input s2) \<le> length (input s1)"
    using scanCountBytes_length [of s1 ObjectShaLength True x2 s2] by simp
  ultimately show "(fmtPrint s2
            (''fileMode: '' @ fileMetadataComponents ! 0 @
             '', filename: '' @ fileMetadataComponents ! 1 @
             '', SHA: '' @ EncodeToString sha @ ''\<newline>''), s) \<in> measure (\<lambda>s. length (input s))"
    by (simp add: fmtPrint_def)
qed

subsection \<open>Dispatch on the object type\<close>

definition printObjectFileContent :: "state \<Rightarrow> unit result \<times> state" where
  "printObjectFileContent s =
     (case parseObjectHeader s of
        (Inl e, s') \<Rightarrow> (Inl e, s')
      | (Inr header, s1) \<Rightarrow>
          (let s2 = fmtPrint s1
                 (''Type: '' @ objectType header @ '', len: '' @
                  formatInt (length' header) @ ''\<newline>'')
           in if objectType header = ''tree'' then printTreeContent s2
              else if objectType header = ''blob'' then printBlobContent s2 (length' header)
              else if objectType header = ''commit'' then printCommitContent s2 (length' header)
              else (Inr (), fmtPrint s2 ''Parsing this tag-type not yet supported\<newline>'')))"

declare Split.simps [simp del] formatUint.simps [simp del] printTreeContent.simps [simp del]

section \<open>The formats, for stating the properties\<close>

text \<open>
  A decimal integer is an optional sign followed by at least one digit; its value is
  read in base ten. A tree entry is encoded as \<^verbatim>\<open><mode> <name>\0\<close> followed by the
  raw bytes of its hash, and the program shows it on a line of its own. An entry is well
  formed when its mode and its name contain neither a space nor a NUL byte, so that
  they are the two space-separated fields of the segment, and its hash has 20 bytes.
\<close>

definition decimalValue :: "string \<Rightarrow> nat" where
  "decimalValue ds = foldl (\<lambda>n c. n * 10 + digitVal c) 0 ds"

definition isDecimalInteger :: "string \<Rightarrow> bool" where
  "isDecimalInteger s =
     (case s of
        [] \<Rightarrow> False
      | c # cs \<Rightarrow>
          if c = CHR ''+'' \<or> c = CHR ''-'' then cs \<noteq> [] \<and> list_all isDigit cs
          else list_all isDigit s)"

definition decimalInteger :: "string \<Rightarrow> int" where
  "decimalInteger s =
     (case s of
        [] \<Rightarrow> 0
      | c # cs \<Rightarrow>
          if c = CHR ''-'' then - int (decimalValue cs)
          else if c = CHR ''+'' then int (decimalValue cs)
          else int (decimalValue s))"

record treeEntry =
  mode :: string
  name :: string
  objectHash :: "byte list"

definition encodeEntry :: "treeEntry \<Rightarrow> byte list" where
  "encodeEntry e = mode e @ CHR '' '' # name e @ NUL # objectHash e"

definition renderEntry :: "treeEntry \<Rightarrow> string" where
  "renderEntry e =
     ''fileMode: '' @ mode e @ '', filename: '' @ name e @
     '', SHA: '' @ EncodeToString (objectHash e) @ ''\<newline>''"

definition wellFormedEntry :: "treeEntry \<Rightarrow> bool" where
  "wellFormedEntry e =
     (NUL \<notin> set (mode e) \<and> CHR '' '' \<notin> set (mode e) \<and>
      NUL \<notin> set (name e) \<and> CHR '' '' \<notin> set (name e) \<and>
      length (objectHash e) = 20)"

text \<open>Reading lowercase hexadecimal back into bytes, two digits per byte.\<close>

definition hexDigitValue :: "char \<Rightarrow> nat" where
  "hexDigitValue c =
     (if isDigit c then digitVal c else of_char c - of_char (CHR ''a'') + 10)"

fun decodeHex :: "string \<Rightarrow> byte list" where
  "decodeHex (h # l # cs) = char_of (hexDigitValue h * 16 + hexDigitValue l) # decodeHex cs"
| "decodeHex _ = []"

section \<open>Properties of the byte reader\<close>

lemma scanCountLoop_done:
  "\<not> i \<le> n \<Longrightarrow> scanCountLoop s n i acc = (Inr acc, s)"
  by (simp add: scanCountLoop.simps [of s])

lemma scanCountLoop_Cons:
  "i \<le> n \<Longrightarrow> input s = b # bs \<Longrightarrow>
     scanCountLoop s n i acc = scanCountLoop (s\<lparr>input := bs\<rparr>) n (i + 1) (acc @ [b])"
  by (simp add: scanCountLoop.simps [of s] scanSingleByte_def)

lemma scanCountLoop_Nil:
  "i \<le> n \<Longrightarrow> input s = [] \<Longrightarrow>
     scanCountLoop s n i acc =
       (Inl (if inputErr s then LogFatal else PanicUnexpectedEOF), s)"
  by (simp add: scanCountLoop.simps [of s] scanSingleByte_def)

text \<open>With enough bytes left the loop returns the next \<open>n + 1 - i\<close> of them.\<close>

lemma scanCountLoop_take:
  "k = nat (n + 1 - i) \<Longrightarrow> k \<le> length (input s) \<Longrightarrow>
     scanCountLoop s n i acc =
       (Inr (acc @ take k (input s)), s\<lparr>input := drop k (input s)\<rparr>)"
proof (induction k arbitrary: s i acc)
  case 0
  then have "\<not> i \<le> n" by simp
  then show ?case by (simp add: scanCountLoop_done)
next
  case (Suc k)
  then have le: "i \<le> n" by simp
  from Suc.prems obtain b bs where bs: "input s = b # bs"
    by (cases "input s") auto
  have "scanCountLoop (s\<lparr>input := bs\<rparr>) n (i + 1) (acc @ [b]) =
          (Inr ((acc @ [b]) @ take k (input (s\<lparr>input := bs\<rparr>))),
           s\<lparr>input := bs\<rparr>\<lparr>input := drop k (input (s\<lparr>input := bs\<rparr>))\<rparr>)"
    using Suc.prems bs by (intro Suc.IH) auto
  then show ?case
    by (simp add: scanCountLoop_Cons [OF le bs] bs)
qed

text \<open>With too few bytes left the loop stops at the end of the stream.\<close>

lemma scanCountLoop_short:
  "xs = input s \<Longrightarrow> int (length xs) < n + 1 - i \<Longrightarrow>
     scanCountLoop s n i acc =
       (Inl (if inputErr s then LogFatal else PanicUnexpectedEOF), s\<lparr>input := []\<rparr>)"
proof (induction xs arbitrary: s i acc)
  case Nil
  then have "i \<le> n" by simp
  with Nil show ?case by (simp add: scanCountLoop_Nil)
next
  case (Cons b bs)
  from Cons.prems(2) have le: "i \<le> n" by simp
  have bs: "input s = b # bs" using Cons.prems(1) by simp
  have len: "int (length bs) < n + 1 - (i + 1)" using Cons.prems(2) by simp
  have "scanCountLoop (s\<lparr>input := bs\<rparr>) n (i + 1) (acc @ [b]) =
          (Inl (if inputErr (s\<lparr>input := bs\<rparr>) then LogFatal else PanicUnexpectedEOF),
           s\<lparr>input := bs\<rparr>\<lparr>input := []\<rparr>)"
    by (rule Cons.IH [OF _ len]) simp
  then show ?case
    by (simp add: scanCountLoop_Cons [OF le bs])
qed

lemma scanCountBytes_take:
  "nat n \<le> length (input s) \<Longrightarrow>
     scanCountBytes s n t =
       (Inr (take (nat n) (input s)), s\<lparr>input := drop (nat n) (input s)\<rparr>)"
  using scanCountLoop_take [of "nat n" n 1 s "[]"]
  by (simp add: scanCountBytes_def)

lemma scanCountBytes_nonpositive:
  "n \<le> 0 \<Longrightarrow> scanCountBytes s n t = (Inr [], s)"
  by (simp add: scanCountBytes_def scanCountLoop_done)

text \<open>
  Claim C9. \<^verbatim>\<open>scanCountBytes\<close> never looks at its \<^verbatim>\<open>throwOnEOF\<close> argument: on a stream
  with fewer than \<open>n\<close> bytes left it aborts whatever the argument is, also when it is
  \<^verbatim>\<open>false\<close>. It consumes the bytes that are left and then panics with "Unexpected EOF"
  at a clean end of the stream, or exits through \<^verbatim>\<open>log.Fatal\<close> when the reader ended
  with an error; no result is returned to the caller.
\<close>

theorem scanCountBytes_premature_end_is_fatal:
  "int (length (input s)) < n \<Longrightarrow>
     scanCountBytes s n False =
       (Inl (if inputErr s then LogFatal else PanicUnexpectedEOF), s\<lparr>input := []\<rparr>) \<and>
     scanCountBytes s n throwOnEOF = scanCountBytes s n False"
  using scanCountLoop_short [of "input s" s n 1 "[]"]
  by (simp add: scanCountBytes_def)

theorem scanCountBytes_premature_end_is_fatal_witness:
  "int (length (input \<lparr>input = ''abc'', inputErr = False, stdout = []\<rparr>)) < 5 \<and>
   scanCountBytes \<lparr>input = ''abc'', inputErr = False, stdout = []\<rparr> 5 False =
     (Inl PanicUnexpectedEOF, \<lparr>input = [], inputErr = False, stdout = []\<rparr>)"
  using scanCountBytes_premature_end_is_fatal
          [of "\<lparr>input = ''abc'', inputErr = False, stdout = []\<rparr>" 5 False]
  by simp

text \<open>
  Claim C10. With a negative declared length the blob decoder (in both versions of the
  program) and the commit decoder return normally and leave the state as it was: no
  byte is taken from the stream and nothing is printed, in particular no truncation
  notice. The loop of \<^verbatim>\<open>scanCountBytes\<close> does not run for a count below 1.
\<close>

theorem negative_length_reads_nothing:
  "N < 0 \<Longrightarrow>
     scanCountBytes s N True = (Inr [], s) \<and>
     printBlobContent s N = (Inr (), s) \<and>
     printBlobContent_hello s N = (Inr (), s) \<and>
     printCommitContent s N = (Inr (), s)"
  by (simp add: printBlobContent_def printBlobContent_hello_def printCommitContent_def
      TruncatedSize_def scanCountBytes_nonpositive fmtPrint_def)

theorem negative_length_reads_nothing_witness:
  "(-5 :: int) < 0 \<and>
   printBlobContent \<lparr>input = ''hello'', inputErr = False, stdout = ''x''\<rparr> (-5) =
     (Inr (), \<lparr>input = ''hello'', inputErr = False, stdout = ''x''\<rparr>) \<and>
   printCommitContent \<lparr>input = ''hello'', inputErr = False, stdout = ''x''\<rparr> (-5) =
     (Inr (), \<lparr>input = ''hello'', inputErr = False, stdout = ''x''\<rparr>)"
  using negative_length_reads_nothing
          [of "-5" "\<lparr>input = ''hello'', inputErr = False, stdout = ''x''\<rparr>"]
  by simp

section \<open>The blob and commit decoders\<close>

lemma printBlobContent_small:
  "N \<le> 3072 \<Longrightarrow> N \<le> int (length (input s)) \<Longrightarrow>
     printBlobContent s N =
       (Inr (), s\<lparr>input := drop (nat N) (input s),
                  stdout := stdout s @ take (nat N) (input s)\<rparr>)"
  by (simp add: printBlobContent_def TruncatedSize_def scanCountBytes_take fmtPrint_def)

lemma printBlobContent_large:
  "N > 3072 \<Longrightarrow> 3072 \<le> length (input s) \<Longrightarrow>
     printBlobContent s N =
       (Inr (), s\<lparr>input := drop 3072 (input s),
                  stdout := stdout s @ take 3072 (input s) @
                            ''\<newline>\<newline>(... truncated to 3KB)\<newline>''\<rparr>)"
  by (simp add: printBlobContent_def TruncatedSize_def scanCountBytes_take fmtPrint_def)

lemma printBlobContent_hello_small:
  "N \<le> 3072 \<Longrightarrow> N \<le> int (length (input s)) \<Longrightarrow>
     printBlobContent_hello s N =
       (Inr (), s\<lparr>input := drop (nat N) (input s),
                  stdout := stdout s @ take (nat N) (input s)\<rparr>)"
  by (simp add: printBlobContent_hello_def TruncatedSize_def scanCountBytes_take fmtPrint_def)

lemma printBlobContent_hello_large:
  "N > 3072 \<Longrightarrow> 3072 \<le> length (input s) \<Longrightarrow>
     printBlobContent_hello s N =
       (Inr (), s\<lparr>input := drop 3072 (input s),
                  stdout := stdout s @ take 3072 (input s) @
                            ''(... truncated to 3KB)\<newline>''\<rparr>)"
  by (simp add: printBlobContent_hello_def TruncatedSize_def scanCountBytes_take fmtPrint_def)

lemma printCommitContent_exact:
  "N \<le> int (length (input s)) \<Longrightarrow>
     printCommitContent s N =
       (Inr (), s\<lparr>input := drop (nat N) (input s),
                  stdout := stdout s @ take (nat N) (input s)\<rparr>)"
  by (simp add: printCommitContent_def scanCountBytes_take fmtPrint_def)

text \<open>
  Claim C1. A blob with declared length \<open>N \<le> 3072\<close>, on a stream that holds at least
  \<open>N\<close> bytes: the decoder prints exactly the next \<open>N\<close> bytes and nothing after them.
  With \<open>N > 3072\<close>, on a stream of at least 3072 bytes: it prints exactly the next 3072
  bytes and then the truncation notice. Both versions of the program agree on this, up to
  the line breaks around the notice.
\<close>

theorem blob_rendering:
  "(N \<le> 3072 \<longrightarrow> N \<le> int (length (input s)) \<longrightarrow>
      printBlobContent s N =
        (Inr (), s\<lparr>input := drop (nat N) (input s),
                   stdout := stdout s @ take (nat N) (input s)\<rparr>) \<and>
      printBlobContent_hello s N =
        (Inr (), s\<lparr>input := drop (nat N) (input s),
                   stdout := stdout s @ take (nat N) (input s)\<rparr>) \<and>
      (0 \<le> N \<longrightarrow> int (length (take (nat N) (input s))) = N)) \<and>
   (N > 3072 \<longrightarrow> 3072 \<le> length (input s) \<longrightarrow>
      printBlobContent s N =
        (Inr (), s\<lparr>input := drop 3072 (input s),
                   stdout := stdout s @ take 3072 (input s) @
                             ''\<newline>\<newline>(... truncated to 3KB)\<newline>''\<rparr>) \<and>
      printBlobContent_hello s N =
        (Inr (), s\<lparr>input := drop 3072 (input s),
                   stdout := stdout s @ take 3072 (input s) @
                             ''(... truncated to 3KB)\<newline>''\<rparr>) \<and>
      length (take 3072 (input s)) = 3072)"
  by (simp add: printBlobContent_small printBlobContent_large
      printBlobContent_hello_small printBlobContent_hello_large)

theorem blob_rendering_witness:
  "printBlobContent \<lparr>input = ''hello'', inputErr = False, stdout = []\<rparr> 5 =
     (Inr (), \<lparr>input = [], inputErr = False, stdout = ''hello''\<rparr>) \<and>
   printBlobContent \<lparr>input = replicate 4000 (CHR ''a''), inputErr = False, stdout = []\<rparr> 4000 =
     (Inr (), \<lparr>input = replicate 928 (CHR ''a''), inputErr = False,
        stdout = replicate 3072 (CHR ''a'') @ ''\<newline>\<newline>(... truncated to 3KB)\<newline>''\<rparr>)"
  using blob_rendering [of 5 "\<lparr>input = ''hello'', inputErr = False, stdout = []\<rparr>"]
    blob_rendering [of 4000 "\<lparr>input = replicate 4000 (CHR ''a''), inputErr = False, stdout = []\<rparr>"]
  by simp

text \<open>
  Claim C2, as stated: the text after the rendered content is exactly
  \<^verbatim>\<open>(... truncated to 3KB)\<close>. It is not, in either version: the program prints the notice
  with line breaks around it. Here for a blob of 3073 bytes.
\<close>

theorem truncation_notice_bare_counterexample:
  "stdout (snd (printBlobContent
       \<lparr>input = replicate 3073 (CHR ''a''), inputErr = False, stdout = []\<rparr> 3073))
     \<noteq> replicate 3072 (CHR ''a'') @ ''(... truncated to 3KB)'' \<and>
   stdout (snd (printBlobContent_hello
       \<lparr>input = replicate 3073 (CHR ''a''), inputErr = False, stdout = []\<rparr> 3073))
     \<noteq> replicate 3072 (CHR ''a'') @ ''(... truncated to 3KB)''"
  using printBlobContent_large
          [of 3073 "\<lparr>input = replicate 3073 (CHR ''a''), inputErr = False, stdout = []\<rparr>"]
        printBlobContent_hello_large
          [of 3073 "\<lparr>input = replicate 3073 (CHR ''a''), inputErr = False, stdout = []\<rparr>"]
  by simp

text \<open>
  Claim C2, amended. For a blob whose declared length exceeds 3072, the text printed after
  the 3072 rendered bytes is a fixed string that depends neither on the length nor on the
  content: two line breaks, \<^verbatim>\<open>(... truncated to 3KB)\<close> and a line break in the program with
  the flags (src/unnamed/part_000); \<^verbatim>\<open>(... truncated to 3KB)\<close> and a line break in
  src/hello.go.
\<close>

theorem truncation_notice_text:
  "N > 3072 \<Longrightarrow> 3072 \<le> length (input s) \<Longrightarrow>
     stdout (snd (printBlobContent s N)) =
       (stdout s @ take 3072 (input s)) @ ''\<newline>\<newline>(... truncated to 3KB)\<newline>'' \<and>
     stdout (snd (printBlobContent_hello s N)) =
       (stdout s @ take 3072 (input s)) @ ''(... truncated to 3KB)\<newline>''"
  by (simp add: printBlobContent_large printBlobContent_hello_large)

theorem truncation_notice_text_witness:
  "stdout (snd (printBlobContent
       \<lparr>input = replicate 3073 (CHR ''a''), inputErr = False, stdout = ''x''\<rparr> 3073)) =
     ''x'' @ replicate 3072 (CHR ''a'') @ ''\<newline>\<newline>(... truncated to 3KB)\<newline>'' \<and>
   stdout (snd (printBlobContent_hello
       \<lparr>input = replicate 3073 (CHR ''a''), inputErr = False, stdout = ''x''\<rparr> 3073)) =
     ''x'' @ replicate 3072 (CHR ''a'') @ ''(... truncated to 3KB)\<newline>''"
  using truncation_notice_text
          [of 3073 "\<lparr>input = replicate 3073 (CHR ''a''), inputErr = False, stdout = ''x''\<rparr>"]
  by simp

text \<open>
  Claim C7. A commit with declared length \<open>N \<ge> 0\<close>, on a stream that holds at least \<open>N\<close>
  bytes: the decoder takes exactly the next \<open>N\<close> bytes from the stream and prints them
  unchanged, whatever they are and however many, and prints nothing else.
\<close>

theorem commit_verbatim:
  "0 \<le> N \<Longrightarrow> N \<le> int (length (input s)) \<Longrightarrow>
     printCommitContent s N =
       (Inr (), s\<lparr>input := drop (nat N) (input s),
                  stdout := stdout s @ take (nat N) (input s)\<rparr>) \<and>
     int (length (take (nat N) (input s))) = N \<and>
     take (nat N) (input s) @ drop (nat N) (input s) = input s"
  by (simp add: printCommitContent_exact)

theorem commit_verbatim_witness:
  "printCommitContent
     \<lparr>input = ''tree ab\<newline>author x\<newline>\<newline>msg\<newline>rest'', inputErr = False, stdout = []\<rparr> 22 =
     (Inr (), \<lparr>input = ''rest'', inputErr = False,
               stdout = ''tree ab\<newline>author x\<newline>\<newline>msg\<newline>''\<rparr>)"
  using commit_verbatim
          [of 22 "\<lparr>input = ''tree ab\<newline>author x\<newline>\<newline>msg\<newline>rest'', inputErr = False, stdout = []\<rparr>"]
  by simp

text \<open>
  Claim C8. A blob with declared length \<open>N > 3072\<close>, on a stream of at least 3072 bytes:
  the decoder leaves the stream exactly 3072 bytes further; the bytes behind them,
  among them the other \<open>N - 3072\<close> bytes of the body, are still unread when it returns.
\<close>

theorem blob_remainder_not_drained:
  "N > 3072 \<Longrightarrow> 3072 \<le> length (input s) \<Longrightarrow>
     input (snd (printBlobContent s N)) = drop 3072 (input s) \<and>
     input (snd (printBlobContent_hello s N)) = drop 3072 (input s) \<and>
     length (drop 3072 (input s)) = length (input s) - 3072 \<and>
     (N \<le> int (length (input s)) \<longrightarrow> N - 3072 \<le> int (length (drop 3072 (input s))))"
  by (simp add: printBlobContent_large printBlobContent_hello_large)

theorem blob_remainder_not_drained_witness:
  "input (snd (printBlobContent
       \<lparr>input = replicate 4000 (CHR ''a''), inputErr = False, stdout = []\<rparr> 4000)) =
     replicate 928 (CHR ''a'')"
  using blob_remainder_not_drained
          [of 4000 "\<lparr>input = replicate 4000 (CHR ''a''), inputErr = False, stdout = []\<rparr>"]
  by simp

section \<open>The header decoder\<close>

subsection \<open>Reading up to a delimiter\<close>

lemma scanUntilLoop_Nil:
  "input s = [] \<Longrightarrow>
     scanUntilLoop s d t acc =
       (if inputErr s then (Inl LogFatal, s)
        else if t then (Inl PanicUnexpectedEOF, s) else (Inr acc, s))"
  by (simp add: scanUntilLoop.simps [of s] scanSingleByte_def)

lemma scanUntilLoop_Cons:
  "input s = b # bs \<Longrightarrow>
     scanUntilLoop s d t acc =
       (if b = d then (Inr (acc @ [b]), s\<lparr>input := bs\<rparr>)
        else scanUntilLoop (s\<lparr>input := bs\<rparr>) d t (acc @ [b]))"
  by (simp add: scanUntilLoop.simps [of s] scanSingleByte_def)

lemma scanUntilLoop_found:
  "d \<notin> set xs \<Longrightarrow> input s = xs @ d # rest \<Longrightarrow>
     scanUntilLoop s d t acc = (Inr (acc @ xs @ [d]), s\<lparr>input := rest\<rparr>)"
proof (induction xs arbitrary: s acc)
  case Nil
  then show ?case by (simp add: scanUntilLoop_Cons)
next
  case (Cons x xs)
  have "scanUntilLoop (s\<lparr>input := xs @ d # rest\<rparr>) d t (acc @ [x]) =
          (Inr ((acc @ [x]) @ xs @ [d]), s\<lparr>input := xs @ d # rest\<rparr>\<lparr>input := rest\<rparr>)"
    using Cons.prems by (intro Cons.IH) auto
  with Cons.prems show ?case
    by (auto simp: scanUntilLoop_Cons [of s x "xs @ d # rest"])
qed

lemma scanUntilLoop_end:
  "d \<notin> set xs \<Longrightarrow> input s = xs \<Longrightarrow>
     scanUntilLoop s d t acc =
       (if inputErr s then Inl LogFatal
        else if t then Inl PanicUnexpectedEOF else Inr (acc @ xs), s\<lparr>input := []\<rparr>)"
proof (induction xs arbitrary: s acc)
  case Nil
  then show ?case by (simp add: scanUntilLoop_Nil)
next
  case (Cons x xs)
  have "scanUntilLoop (s\<lparr>input := xs\<rparr>) d t (acc @ [x]) =
          (if inputErr (s\<lparr>input := xs\<rparr>) then Inl LogFatal
           else if t then Inl PanicUnexpectedEOF else Inr ((acc @ [x]) @ xs),
           s\<lparr>input := xs\<rparr>\<lparr>input := []\<rparr>)"
    using Cons.prems by (intro Cons.IH) auto
  with Cons.prems show ?case
    by (auto simp: scanUntilLoop_Cons [of s x xs])
qed

lemma scanBytesUntilDelimiter_found:
  "d \<notin> set xs \<Longrightarrow> input s = xs @ d # rest \<Longrightarrow>
     scanBytesUntilDelimiter s d t = (Inr (xs @ [d]), s\<lparr>input := rest\<rparr>)"
  using scanUntilLoop_found [of d xs s rest t "[]"]
  by (simp add: scanBytesUntilDelimiter_def)

lemma scanBytesUntilDelimiter_end:
  "d \<notin> set (input s) \<Longrightarrow>
     scanBytesUntilDelimiter s d t =
       (if inputErr s then Inl LogFatal
        else if t then Inl PanicUnexpectedEOF else Inr (input s), s\<lparr>input := []\<rparr>)"
  using scanUntilLoop_end [of d "input s" s t "[]"]
  by (simp add: scanBytesUntilDelimiter_def)

subsection \<open>Splitting into fields\<close>

lemma Split_no_sep: "sep \<notin> set s \<Longrightarrow> Split s sep = [s]"
proof -
  assume "sep \<notin> set s"
  then have d: "dropWhile (\<lambda>c. c \<noteq> sep) s = []" by auto
  show ?thesis by (simp add: Split.simps [of s] d)
qed

lemma Split_sep: "sep \<notin> set a \<Longrightarrow> Split (a @ sep # b) sep = a # Split b sep"
proof -
  assume a: "sep \<notin> set a"
  then have d: "dropWhile (\<lambda>c. c \<noteq> sep) (a @ sep # b) = sep # b"
    by (induction a) auto
  from a have t: "takeWhile (\<lambda>c. c \<noteq> sep) (a @ sep # b) = a"
    by (induction a) auto
  show ?thesis by (simp add: Split.simps [of "a @ sep # b"] d t)
qed

lemma length_Split: "length (Split s sep) = Suc (count_list s sep)"
proof (induction s sep rule: Split.induct)
  case (1 s sep)
  show ?case
  proof (cases "sep \<in> set s")
    case False
    then show ?thesis by (simp add: Split_no_sep)
  next
    case True
    then obtain a b where s: "s = a @ sep # b" and a: "sep \<notin> set a"
      by (meson split_list_first)
    from a have d: "dropWhile (\<lambda>c. c \<noteq> sep) s = sep # b"
      unfolding s by (induction a) auto
    from "1.IH" [OF d] a show ?thesis
      by (simp add: s Split_sep)
  qed
qed

subsection \<open>Parsing the length\<close>

lemma foldl_digits_ge: "n \<le> foldl (\<lambda>n c. n * 10 + digitVal c) n ds"
proof (induction ds arbitrary: n)
  case Nil
  show ?case by simp
next
  case (Cons c cs)
  have "n \<le> n * 10 + digitVal c" by simp
  also have "\<dots> \<le> foldl (\<lambda>n c. n * 10 + digitVal c) (n * 10 + digitVal c) cs"
    by (rule Cons.IH)
  finally show ?case by simp
qed

lemma digitVal_le: "isDigit c \<Longrightarrow> digitVal c \<le> 9"
  by (auto simp: isDigit_def digitVal_def)

lemma parseUintLoop_value:
  "list_all isDigit ds \<Longrightarrow> foldl (\<lambda>n c. n * 10 + digitVal c) n ds < 2 ^ 64 \<Longrightarrow>
     parseUintLoop n ds = Inr (foldl (\<lambda>n c. n * 10 + digitVal c) n ds)"
proof (induction ds arbitrary: n)
  case Nil
  show ?case by simp
next
  case (Cons c cs)
  let ?m = "n * 10 + digitVal c"
  have "?m \<le> foldl (\<lambda>n c. n * 10 + digitVal c) ?m cs"
    by (rule foldl_digits_ge)
  with Cons.prems have m: "?m < 18446744073709551616" by simp
  then have n: "\<not> 1844674407370955162 \<le> n" by simp
  from Cons.prems have "parseUintLoop ?m cs = Inr (foldl (\<lambda>n c. n * 10 + digitVal c) ?m cs)"
    by (intro Cons.IH) simp_all
  with Cons.prems m n show ?case
    by (simp add: maxUint64_def Let_def)
qed

lemma parseUintLoop_range:
  "list_all isDigit ds \<Longrightarrow> 2 ^ 64 \<le> foldl (\<lambda>n c. n * 10 + digitVal c) n ds \<Longrightarrow>
     n < 2 ^ 64 \<Longrightarrow> parseUintLoop n ds = Inl ErrRange"
proof (induction ds arbitrary: n)
  case Nil
  then show ?case by simp
next
  case (Cons c cs)
  let ?m = "n * 10 + digitVal c"
  from Cons.prems have d: "digitVal c \<le> 9" by (simp add: digitVal_le)
  show ?case
  proof (cases "1844674407370955162 \<le> n")
    case True
    with Cons.prems show ?thesis by (simp add: maxUint64_def)
  next
    case False
    show ?thesis
    proof (cases "?m < 18446744073709551616")
      case True
      with Cons.prems have "parseUintLoop ?m cs = Inl ErrRange"
        by (intro Cons.IH) simp_all
      with Cons.prems False True show ?thesis
        by (simp add: maxUint64_def Let_def)
    next
      case big: False
      with False d have "?m mod 18446744073709551616 = ?m - 18446744073709551616"
        by (simp add: mod_if)
      with big d have "?m mod 18446744073709551616 < n * 10" by simp
      with Cons.prems False show ?thesis
        by (simp add: maxUint64_def Let_def)
    qed
  qed
qed

lemma parseUintLoop_syntax:
  "\<not> list_all isDigit ds \<Longrightarrow> \<exists>e. parseUintLoop n ds = Inl e"
proof (induction ds arbitrary: n)
  case Nil
  then show ?case by simp
next
  case (Cons c cs)
  show ?case
  proof (cases "isDigit c")
    case False
    then show ?thesis by simp
  next
    case True
    with Cons.prems have "\<not> list_all isDigit cs" by simp
    from Cons.IH [OF this] show ?thesis
      by (simp add: Let_def)
  qed
qed

lemma isDigit_not_sign: "isDigit c \<Longrightarrow> c \<noteq> CHR ''+'' \<and> c \<noteq> CHR ''-''"
  by (auto simp: isDigit_def)

lemma isDigit_not_sep: "isDigit c \<Longrightarrow> c \<noteq> CHR '' '' \<and> c \<noteq> NUL"
  by (auto simp: isDigit_def NUL_def)

lemma ParseUint_value:
  "ds \<noteq> [] \<Longrightarrow> list_all isDigit ds \<Longrightarrow> decimalValue ds < 2 ^ 64 \<Longrightarrow>
     ParseUint ds = Inr (decimalValue ds)"
  by (simp add: ParseUint_def decimalValue_def parseUintLoop_value)

lemma ParseUint_range:
  "list_all isDigit ds \<Longrightarrow> 2 ^ 64 \<le> decimalValue ds \<Longrightarrow> ParseUint ds = Inl ErrRange"
  by (cases "ds = []") (simp_all add: ParseUint_def decimalValue_def parseUintLoop_range)

lemma ParseUint_syntax:
  "ds = [] \<or> \<not> list_all isDigit ds \<Longrightarrow> \<exists>e. ParseUint ds = Inl e"
  using parseUintLoop_syntax [of ds 0] by (auto simp: ParseUint_def)

text \<open>What \<^verbatim>\<open>Atoi\<close> returns, in terms of the decimal numeral it is given.\<close>

lemma Atoi_value:
  assumes "isDecimalInteger s" "- (2 ^ 63) \<le> decimalInteger s" "decimalInteger s < 2 ^ 63"
  shows "Atoi s = Inr (decimalInteger s)"
proof (cases s)
  case Nil
  with assms show ?thesis by (simp add: isDecimalInteger_def)
next
  case (Cons c cs)
  show ?thesis
  proof (cases "c = CHR ''+'' \<or> c = CHR ''-''")
    case True
    with assms Cons have cs: "cs \<noteq> []" "list_all isDigit cs" "decimalValue cs \<le> 2 ^ 63"
      by (auto simp: isDecimalInteger_def decimalInteger_def split: if_splits)
    then have "ParseUint cs = Inr (decimalValue cs)"
      by (intro ParseUint_value) simp_all
    with True Cons cs assms show ?thesis
      by (auto simp: Atoi_def ParseInt_def Let_def decimalInteger_def)
  next
    case False
    with assms Cons have s: "list_all isDigit s" "decimalValue s < 2 ^ 63"
      by (auto simp: isDecimalInteger_def decimalInteger_def)
    with Cons have "ParseUint s = Inr (decimalValue s)"
      by (intro ParseUint_value) simp_all
    with False Cons s show ?thesis
      by (simp add: Atoi_def ParseInt_def Let_def decimalInteger_def)
  qed
qed

lemma Atoi_out_of_range:
  assumes "isDecimalInteger s" "decimalInteger s < - (2 ^ 63) \<or> 2 ^ 63 \<le> decimalInteger s"
  shows "Atoi s = Inl ErrRange"
proof (cases s)
  case Nil
  with assms show ?thesis by (simp add: isDecimalInteger_def)
next
  case (Cons c cs)
  define ds where "ds = (if c = CHR ''+'' \<or> c = CHR ''-'' then cs else s)"
  from assms Cons have ds: "ds \<noteq> []" "list_all isDigit ds"
    by (auto simp: ds_def isDecimalInteger_def)
  show ?thesis
  proof (cases "decimalValue ds < 2 ^ 64")
    case True
    with ds have "ParseUint ds = Inr (decimalValue ds)"
      by (intro ParseUint_value)
    with assms Cons show ?thesis
      by (auto simp: Atoi_def ParseInt_def Let_def decimalInteger_def ds_def split: if_splits)
  next
    case False
    with ds have "ParseUint ds = Inl ErrRange"
      by (intro ParseUint_range) simp_all
    then show ?thesis
      using Cons by (auto simp: Atoi_def ParseInt_def Let_def ds_def maxUint64_def)
  qed
qed

lemma Atoi_not_integer:
  assumes "\<not> isDecimalInteger s"
  shows "\<exists>e. Atoi s = Inl e"
proof (cases s)
  case Nil
  then show ?thesis by (simp add: Atoi_def ParseInt_def)
next
  case (Cons c cs)
  define ds where "ds = (if c = CHR ''+'' \<or> c = CHR ''-'' then cs else s)"
  from assms Cons have "ds = [] \<or> \<not> list_all isDigit ds"
    by (auto simp: ds_def isDecimalInteger_def)
  then obtain e where "ParseUint ds = Inl e"
    using ParseUint_syntax by blast
  then show ?thesis
    using Cons by (cases e) (auto simp: Atoi_def ParseInt_def Let_def ds_def maxUint64_def)
qed

lemma decimalValue_snoc: "decimalValue (ds @ [c]) = decimalValue ds * 10 + digitVal c"
  by (simp add: decimalValue_def)

lemma isDigit_char_of: "d < 10 \<Longrightarrow> isDigit (char_of (48 + d :: nat))"
  by (simp add: isDigit_def)

lemma digitVal_char_of: "d < 10 \<Longrightarrow> digitVal (char_of (48 + d :: nat)) = d"
  by (simp add: digitVal_def)

lemma formatUint_digits: "formatUint n \<noteq> [] \<and> list_all isDigit (formatUint n)"
proof (induction n rule: formatUint.induct)
  case (1 n)
  show ?case
  proof (cases "n < 10")
    case True
    then show ?thesis
      by (simp add: formatUint.simps [of n] isDigit_char_of)
  next
    case False
    with "1.IH" show ?thesis
      by (simp add: formatUint.simps [of n] isDigit_char_of)
  qed
qed

lemma decimalValue_formatUint: "decimalValue (formatUint n) = n"
proof (induction n rule: formatUint.induct)
  case (1 n)
  show ?case
  proof (cases "n < 10")
    case True
    then show ?thesis
      using decimalValue_snoc [of "[]"]
      by (simp add: formatUint.simps [of n] digitVal_char_of decimalValue_def)
  next
    case False
    with "1.IH" show ?thesis
      by (simp add: formatUint.simps [of n] decimalValue_snoc digitVal_char_of)
  qed
qed

lemma formatInt_decimal: "isDecimalInteger (formatInt i) \<and> decimalInteger (formatInt i) = i"
proof (cases "i < 0")
  case True
  then show ?thesis
    using formatUint_digits [of "nat (- i)"]
    by (simp add: formatInt_def isDecimalInteger_def decimalInteger_def decimalValue_formatUint)
next
  case False
  obtain c cs where f: "formatUint (nat i) = c # cs"
    using formatUint_digits [of "nat i"] by (cases "formatUint (nat i)") auto
  with formatUint_digits [of "nat i"] have "isDigit c" by simp
  then have c: "c \<noteq> CHR ''+''" "c \<noteq> CHR ''-''" by (simp_all add: isDigit_not_sign)
  from False f c show ?thesis
    using formatUint_digits [of "nat i"] decimalValue_formatUint [of "nat i"]
    by (simp add: formatInt_def isDecimalInteger_def decimalInteger_def)
qed

lemma isDecimalInteger_no_sep:
  assumes "isDecimalInteger fld"
  shows "CHR '' '' \<notin> set fld \<and> NUL \<notin> set fld"
proof (cases fld)
  case Nil
  then show ?thesis by simp
next
  case (Cons c cs)
  have "\<And>x. x \<in> set cs \<Longrightarrow> isDigit x"
    using assms Cons by (auto simp: isDecimalInteger_def list_all_iff split: if_splits)
  then have cs: "CHR '' '' \<notin> set cs \<and> NUL \<notin> set cs"
    using isDigit_not_sep by blast
  have "c \<noteq> CHR '' '' \<and> c \<noteq> NUL"
    using assms Cons isDigit_not_sep [of c]
    by (auto simp: isDecimalInteger_def NUL_def split: if_splits)
  with cs Cons show ?thesis by auto
qed

lemma parseObjectHeader_segment:
  "NUL \<notin> set seg \<Longrightarrow> input s = seg @ NUL # rest \<Longrightarrow>
     parseObjectHeader s =
       (if length (Split seg (CHR '' '')) \<noteq> 2
        then (Inl (PanicInvalidHeader (Split seg (CHR '' ''))), s\<lparr>input := rest\<rparr>)
        else
          (case Atoi (Split seg (CHR '' '') ! 1) of
             Inl err \<Rightarrow> (Inl (PanicNumError err), s\<lparr>input := rest\<rparr>)
           | Inr objectLen \<Rightarrow>
               (Inr \<lparr>objectType = Split seg (CHR '' '') ! 0, length' = objectLen\<rparr>,
                s\<lparr>input := rest\<rparr>)))"
  by (simp add: parseObjectHeader_def scanBytesUntilDelimiter_found Let_def)

lemma Split_two_fields:
  "CHR '' '' \<notin> set ty \<Longrightarrow> CHR '' '' \<notin> set fld \<Longrightarrow>
     Split (ty @ CHR '' '' # fld) (CHR '' '') = [ty, fld]"
  by (simp add: Split_sep Split_no_sep)

lemma parseObjectHeader_fields:
  "NUL \<notin> set ty \<Longrightarrow> CHR '' '' \<notin> set ty \<Longrightarrow> NUL \<notin> set fld \<Longrightarrow> CHR '' '' \<notin> set fld \<Longrightarrow>
   input s = ty @ CHR '' '' # fld @ NUL # rest \<Longrightarrow>
     parseObjectHeader s =
       (case Atoi fld of
          Inl err \<Rightarrow> (Inl (PanicNumError err), s\<lparr>input := rest\<rparr>)
        | Inr objectLen \<Rightarrow> (Inr \<lparr>objectType = ty, length' = objectLen\<rparr>, s\<lparr>input := rest\<rparr>))"
  using parseObjectHeader_segment [of "ty @ CHR '' '' # fld" s rest]
  by (simp add: Split_two_fields NUL_def split: sum.splits)

lemma parseObjectHeader_integer:
  "NUL \<notin> set ty \<Longrightarrow> CHR '' '' \<notin> set ty \<Longrightarrow> isDecimalInteger fld \<Longrightarrow>
   - (2 ^ 63) \<le> decimalInteger fld \<Longrightarrow> decimalInteger fld < 2 ^ 63 \<Longrightarrow>
   input s = ty @ CHR '' '' # fld @ NUL # rest \<Longrightarrow>
     parseObjectHeader s =
       (Inr \<lparr>objectType = ty, length' = decimalInteger fld\<rparr>, s\<lparr>input := rest\<rparr>)"
  using isDecimalInteger_no_sep [of fld] parseObjectHeader_fields [of ty fld s rest]
  by (simp add: Atoi_value)

lemma parseObjectHeader_wrong_field_count:
  "NUL \<notin> set seg \<Longrightarrow> count_list seg (CHR '' '') \<noteq> 1 \<Longrightarrow> input s = seg @ NUL # rest \<Longrightarrow>
     parseObjectHeader s =
       (Inl (PanicInvalidHeader (Split seg (CHR '' ''))), s\<lparr>input := rest\<rparr>)"
  by (simp add: parseObjectHeader_segment length_Split)

lemma parseObjectHeader_not_integer:
  assumes "NUL \<notin> set ty" "CHR '' '' \<notin> set ty" "NUL \<notin> set fld" "CHR '' '' \<notin> set fld"
    and "\<not> isDecimalInteger fld" and "input s = ty @ CHR '' '' # fld @ NUL # rest"
  shows "\<exists>e. parseObjectHeader s = (Inl (PanicNumError e), s\<lparr>input := rest\<rparr>)"
proof -
  from assms(5) obtain e where "Atoi fld = Inl e"
    using Atoi_not_integer by blast
  with assms show ?thesis
    using parseObjectHeader_fields [of ty fld s rest] by simp
qed

lemma parseObjectHeader_out_of_range:
  assumes "NUL \<notin> set ty" "CHR '' '' \<notin> set ty" "isDecimalInteger fld"
    and "decimalInteger fld < - (2 ^ 63) \<or> 2 ^ 63 \<le> decimalInteger fld"
    and "input s = ty @ CHR '' '' # fld @ NUL # rest"
  shows "parseObjectHeader s = (Inl (PanicNumError ErrRange), s\<lparr>input := rest\<rparr>)"
  using assms isDecimalInteger_no_sep [of fld] parseObjectHeader_fields [of ty fld s rest]
  by (simp add: Atoi_out_of_range)

lemma parseObjectHeader_no_NUL:
  "NUL \<notin> set (input s) \<Longrightarrow>
     parseObjectHeader s =
       (Inl (if inputErr s then LogFatal else PanicUnexpectedEOF), s\<lparr>input := []\<rparr>)"
  by (simp add: parseObjectHeader_def scanBytesUntilDelimiter_end)

text \<open>
  Claim C4, as stated: every header \<^verbatim>\<open><type> <N>\0\<close> with one space and a decimal \<open>N\<close>
  decodes to the record of that type and that number. The length of the record is an
  \<^verbatim>\<open>int\<close>, and \<^verbatim>\<open>Atoi\<close> reports a range error for a numeral beyond it, on which the
  decoder panics: the header \<^verbatim>\<open>blob 9223372036854775808\0\<close>, whose number is \<open>2 ^ 63\<close>,
  yields no record.
\<close>

theorem header_length_beyond_int_counterexample:
  "parseObjectHeader
     \<lparr>input = ''blob 9223372036854775808'' @ [NUL], inputErr = False, stdout = []\<rparr> =
     (Inl (PanicNumError ErrRange), \<lparr>input = [], inputErr = False, stdout = []\<rparr>) \<and>
   fst (parseObjectHeader
     \<lparr>input = ''blob 9223372036854775808'' @ [NUL], inputErr = False, stdout = []\<rparr>) \<noteq>
     Inr \<lparr>objectType = ''blob'', length' = 9223372036854775808\<rparr>"
  using parseObjectHeader_out_of_range [of "''blob''" "''9223372036854775808''"
      "\<lparr>input = ''blob 9223372036854775808'' @ [NUL], inputErr = False, stdout = []\<rparr>" "[]"]
  by (simp add: NUL_def isDecimalInteger_def isDigit_def decimalInteger_def decimalValue_def
      digitVal_def)

text \<open>
  Claim C4, amended. A header \<^verbatim>\<open><type> <N>\0\<close> whose type contains neither a space nor a
  NUL byte and whose second field is a decimal integer within the range of the 64-bit
  \<^verbatim>\<open>int\<close> decodes to exactly the record of that type and that number, and the stream is
  left behind the NUL byte. This is stated twice: for the decimal rendering of any
  \<^verbatim>\<open>int\<close> \<open>N\<close>, and for any decimal numeral (leading zeros and a sign included). A header
  segment in which the number of spaces is not one makes the decoder panic with
  "Invalid header"; one whose second field is not a decimal integer, or is a decimal
  integer outside the range of \<^verbatim>\<open>int\<close>, makes it panic with the error of \<^verbatim>\<open>Atoi\<close>.
\<close>

theorem header_decoder:
  "(NUL \<notin> set ty \<and> CHR '' '' \<notin> set ty \<and>
    - (2 ^ 63) \<le> N \<and> N < 2 ^ 63 \<and>
    input s = ty @ CHR '' '' # formatInt N @ NUL # rest \<longrightarrow>
      parseObjectHeader s = (Inr \<lparr>objectType = ty, length' = N\<rparr>, s\<lparr>input := rest\<rparr>)) \<and>
   (NUL \<notin> set ty \<and> CHR '' '' \<notin> set ty \<and>
    isDecimalInteger fld \<and> - (2 ^ 63) \<le> decimalInteger fld \<and> decimalInteger fld < 2 ^ 63 \<and>
    input s = ty @ CHR '' '' # fld @ NUL # rest \<longrightarrow>
      parseObjectHeader s =
        (Inr \<lparr>objectType = ty, length' = decimalInteger fld\<rparr>, s\<lparr>input := rest\<rparr>)) \<and>
   (NUL \<notin> set seg \<and> count_list seg (CHR '' '') \<noteq> 1 \<and>
    input s = seg @ NUL # rest \<longrightarrow>
      parseObjectHeader s =
        (Inl (PanicInvalidHeader (Split seg (CHR '' ''))), s\<lparr>input := rest\<rparr>)) \<and>
   (NUL \<notin> set ty \<and> CHR '' '' \<notin> set ty \<and> NUL \<notin> set fld \<and> CHR '' '' \<notin> set fld \<and>
    \<not> isDecimalInteger fld \<and>
    input s = ty @ CHR '' '' # fld @ NUL # rest \<longrightarrow>
      (\<exists>e. parseObjectHeader s = (Inl (PanicNumError e), s\<lparr>input := rest\<rparr>))) \<and>
   (NUL \<notin> set ty \<and> CHR '' '' \<notin> set ty \<and> isDecimalInteger fld \<and>
    (decimalInteger fld < - (2 ^ 63) \<or> 2 ^ 63 \<le> decimalInteger fld) \<and>
    input s = ty @ CHR '' '' # fld @ NUL # rest \<longrightarrow>
      parseObjectHeader s = (Inl (PanicNumError ErrRange), s\<lparr>input := rest\<rparr>))"
proof (intro conjI impI)
  assume a: "NUL \<notin> set ty \<and> CHR '' '' \<notin> set ty \<and> - (2 ^ 63) \<le> N \<and> N < 2 ^ 63 \<and>
    input s = ty @ CHR '' '' # formatInt N @ NUL # rest"
  then show "parseObjectHeader s = (Inr \<lparr>objectType = ty, length' = N\<rparr>, s\<lparr>input := rest\<rparr>)"
    using parseObjectHeader_integer [of ty "formatInt N" s rest] formatInt_decimal [of N]
    by simp
next
  assume "NUL \<notin> set ty \<and> CHR '' '' \<notin> set ty \<and>
    isDecimalInteger fld \<and> - (2 ^ 63) \<le> decimalInteger fld \<and> decimalInteger fld < 2 ^ 63 \<and>
    input s = ty @ CHR '' '' # fld @ NUL # rest"
  then show "parseObjectHeader s =
        (Inr \<lparr>objectType = ty, length' = decimalInteger fld\<rparr>, s\<lparr>input := rest\<rparr>)"
    using parseObjectHeader_integer [of ty fld s rest] by simp
next
  assume "NUL \<notin> set seg \<and> count_list seg (CHR '' '') \<noteq> 1 \<and> input s = seg @ NUL # rest"
  then show "parseObjectHeader s =
        (Inl (PanicInvalidHeader (Split seg (CHR '' ''))), s\<lparr>input := rest\<rparr>)"
    using parseObjectHeader_wrong_field_count [of seg s rest] by simp
next
  assume "NUL \<notin> set ty \<and> CHR '' '' \<notin> set ty \<and> NUL \<notin> set fld \<and> CHR '' '' \<notin> set fld \<and>
    \<not> isDecimalInteger fld \<and> input s = ty @ CHR '' '' # fld @ NUL # rest"
  then show "\<exists>e. parseObjectHeader s = (Inl (PanicNumError e), s\<lparr>input := rest\<rparr>)"
    using parseObjectHeader_not_integer [of ty fld s rest] by simp
next
  assume "NUL \<notin> set ty \<and> CHR '' '' \<notin> set ty \<and> isDecimalInteger fld \<and>
    (decimalInteger fld < - (2 ^ 63) \<or> 2 ^ 63 \<le> decimalInteger fld) \<and>
    input s = ty @ CHR '' '' # fld @ NUL # rest"
  then show "parseObjectHeader s = (Inl (PanicNumError ErrRange), s\<lparr>input := rest\<rparr>)"
    using parseObjectHeader_out_of_range [of ty fld s rest] by simp
qed

theorem header_decoder_witness:
  "parseObjectHeader \<lparr>input = ''blob 5'' @ NUL # ''hello'', inputErr = False, stdout = []\<rparr> =
     (Inr \<lparr>objectType = ''blob'', length' = 5\<rparr>,
      \<lparr>input = ''hello'', inputErr = False, stdout = []\<rparr>) \<and>
   parseObjectHeader \<lparr>input = ''blob 4000'' @ NUL # ''x'', inputErr = False, stdout = []\<rparr> =
     (Inr \<lparr>objectType = ''blob'', length' = 4000\<rparr>,
      \<lparr>input = ''x'', inputErr = False, stdout = []\<rparr>) \<and>
   parseObjectHeader \<lparr>input = ''blob5'' @ NUL # ''hello'', inputErr = False, stdout = []\<rparr> =
     (Inl (PanicInvalidHeader (Split ''blob5'' (CHR '' ''))),
      \<lparr>input = ''hello'', inputErr = False, stdout = []\<rparr>) \<and>
   (\<exists>e. parseObjectHeader \<lparr>input = ''blob 5x'' @ NUL # ''hello'', inputErr = False, stdout = []\<rparr> =
     (Inl (PanicNumError e), \<lparr>input = ''hello'', inputErr = False, stdout = []\<rparr>)) \<and>
   parseObjectHeader
     \<lparr>input = ''blob -9223372036854775809'' @ NUL # ''x'', inputErr = False, stdout = []\<rparr> =
     (Inl (PanicNumError ErrRange), \<lparr>input = ''x'', inputErr = False, stdout = []\<rparr>)"
proof -
  have f: "formatInt 4000 = ''4000''"
    by (simp add: formatInt_def formatUint.simps char_of_eq_iff)
  have a: "parseObjectHeader
      \<lparr>input = ''blob 5'' @ NUL # ''hello'', inputErr = False, stdout = []\<rparr> =
     (Inr \<lparr>objectType = ''blob'', length' = 5\<rparr>,
      \<lparr>input = ''hello'', inputErr = False, stdout = []\<rparr>)"
    using header_decoder [where ty = "''blob''" and fld = "''5''" and rest = "''hello''"
      and s = "\<lparr>input = ''blob 5'' @ NUL # ''hello'', inputErr = False, stdout = []\<rparr>",
      THEN conjunct2, THEN conjunct1]
    by (simp add: NUL_def isDecimalInteger_def isDigit_def decimalInteger_def decimalValue_def
        digitVal_def)
  have b: "parseObjectHeader
      \<lparr>input = ''blob 4000'' @ NUL # ''x'', inputErr = False, stdout = []\<rparr> =
     (Inr \<lparr>objectType = ''blob'', length' = 4000\<rparr>,
      \<lparr>input = ''x'', inputErr = False, stdout = []\<rparr>)"
    using header_decoder [where ty = "''blob''" and N = 4000 and rest = "''x''"
      and s = "\<lparr>input = ''blob 4000'' @ NUL # ''x'', inputErr = False, stdout = []\<rparr>",
      THEN conjunct1]
    by (simp add: NUL_def f)
  have c: "parseObjectHeader
      \<lparr>input = ''blob5'' @ NUL # ''hello'', inputErr = False, stdout = []\<rparr> =
     (Inl (PanicInvalidHeader (Split ''blob5'' (CHR '' ''))),
      \<lparr>input = ''hello'', inputErr = False, stdout = []\<rparr>)"
    using header_decoder [where seg = "''blob5''" and rest = "''hello''"
      and s = "\<lparr>input = ''blob5'' @ NUL # ''hello'', inputErr = False, stdout = []\<rparr>",
      THEN conjunct2, THEN conjunct2, THEN conjunct1]
    by (simp add: NUL_def)
  have d: "\<exists>e. parseObjectHeader
      \<lparr>input = ''blob 5x'' @ NUL # ''hello'', inputErr = False, stdout = []\<rparr> =
     (Inl (PanicNumError e), \<lparr>input = ''hello'', inputErr = False, stdout = []\<rparr>)"
    using header_decoder [where ty = "''blob''" and fld = "''5x''" and rest = "''hello''"
      and s = "\<lparr>input = ''blob 5x'' @ NUL # ''hello'', inputErr = False, stdout = []\<rparr>",
      THEN conjunct2, THEN conjunct2, THEN conjunct2, THEN conjunct1]
    by (simp add: NUL_def isDecimalInteger_def isDigit_def)
  have e: "parseObjectHeader
      \<lparr>input = ''blob -9223372036854775809'' @ NUL # ''x'', inputErr = False, stdout = []\<rparr> =
     (Inl (PanicNumError ErrRange), \<lparr>input = ''x'', inputErr = False, stdout = []\<rparr>)"
    using header_decoder [where ty = "''blob''" and fld = "''-9223372036854775809''"
      and rest = "''x''"
      and s = "\<lparr>input = ''blob -9223372036854775809'' @ NUL # ''x'', inputErr = False, stdout = []\<rparr>",
      THEN conjunct2, THEN conjunct2, THEN conjunct2, THEN conjunct2]
    by (simp add: NUL_def isDecimalInteger_def isDigit_def decimalInteger_def decimalValue_def
        digitVal_def)
  from a b c d e show ?thesis by blast
qed

text \<open>
  Claim C3, as stated: a header whose second field is a negative decimal integer makes the
  header decoder fail. It does not: \<^verbatim>\<open>Atoi\<close> accepts a sign, and nothing checks the sign
  of the result. The header \<^verbatim>\<open>blob -5\0\<close> decodes to the record with length \<open>-5\<close>.
\<close>

theorem negative_length_counterexample:
  "parseObjectHeader \<lparr>input = ''blob -5'' @ [NUL], inputErr = False, stdout = []\<rparr> =
     (Inr \<lparr>objectType = ''blob'', length' = - 5\<rparr>,
      \<lparr>input = [], inputErr = False, stdout = []\<rparr>)"
  using parseObjectHeader_integer [of "''blob''" "''-5''"
      "\<lparr>input = ''blob -5'' @ [NUL], inputErr = False, stdout = []\<rparr>" "[]"]
  by (simp add: NUL_def isDecimalInteger_def isDigit_def decimalInteger_def decimalValue_def
      digitVal_def)


text \<open>
  Claim C3, amended. A header whose second field is a minus sign followed by decimal
  digits of a value up to \<open>2 ^ 63\<close> decodes without failure to the record with the
  negated value as length. The decoder fails on the second field exactly when \<^verbatim>\<open>Atoi\<close>
  does: whenever the field is not an optionally signed decimal integer, or its value
  is outside the range of \<^verbatim>\<open>int\<close>.
\<close>

theorem negative_length_accepted:
  "(NUL \<notin> set ty \<and> CHR '' '' \<notin> set ty \<and>
    ds \<noteq> [] \<and> list_all isDigit ds \<and> decimalValue ds \<le> 2 ^ 63 \<and>
    input s = ty @ CHR '' '' # CHR ''-'' # ds @ NUL # rest \<longrightarrow>
      parseObjectHeader s =
        (Inr \<lparr>objectType = ty, length' = - int (decimalValue ds)\<rparr>, s\<lparr>input := rest\<rparr>)) \<and>
   (NUL \<notin> set ty \<and> CHR '' '' \<notin> set ty \<and> NUL \<notin> set fld \<and> CHR '' '' \<notin> set fld \<and>
    (\<not> isDecimalInteger fld \<or> decimalInteger fld < - (2 ^ 63) \<or> 2 ^ 63 \<le> decimalInteger fld) \<and>
    input s = ty @ CHR '' '' # fld @ NUL # rest \<longrightarrow>
      (\<exists>e. parseObjectHeader s = (Inl (PanicNumError e), s\<lparr>input := rest\<rparr>)))"
proof (intro conjI impI)
  assume a: "NUL \<notin> set ty \<and> CHR '' '' \<notin> set ty \<and>
    ds \<noteq> [] \<and> list_all isDigit ds \<and> decimalValue ds \<le> 2 ^ 63 \<and>
    input s = ty @ CHR '' '' # CHR ''-'' # ds @ NUL # rest"
  then have "isDecimalInteger (CHR ''-'' # ds)" "decimalInteger (CHR ''-'' # ds) = - int (decimalValue ds)"
    by (simp_all add: isDecimalInteger_def decimalInteger_def)
  with a show "parseObjectHeader s =
        (Inr \<lparr>objectType = ty, length' = - int (decimalValue ds)\<rparr>, s\<lparr>input := rest\<rparr>)"
    using parseObjectHeader_integer [of ty "CHR ''-'' # ds" s rest] by simp
next
  assume a: "NUL \<notin> set ty \<and> CHR '' '' \<notin> set ty \<and> NUL \<notin> set fld \<and> CHR '' '' \<notin> set fld \<and>
    (\<not> isDecimalInteger fld \<or> decimalInteger fld < - (2 ^ 63) \<or> 2 ^ 63 \<le> decimalInteger fld) \<and>
    input s = ty @ CHR '' '' # fld @ NUL # rest"
  show "\<exists>e. parseObjectHeader s = (Inl (PanicNumError e), s\<lparr>input := rest\<rparr>)"
  proof (cases "isDecimalInteger fld")
    case True
    with a show ?thesis
      using parseObjectHeader_out_of_range [of ty fld s rest] by auto
  next
    case False
    with a show ?thesis
      using parseObjectHeader_not_integer [of ty fld s rest] by simp
  qed
qed

theorem negative_length_accepted_witness:
  "parseObjectHeader \<lparr>input = ''blob -5'' @ NUL # ''hello'', inputErr = False, stdout = []\<rparr> =
     (Inr \<lparr>objectType = ''blob'', length' = - 5\<rparr>,
      \<lparr>input = ''hello'', inputErr = False, stdout = []\<rparr>) \<and>
   (\<exists>e. parseObjectHeader \<lparr>input = ''blob -'' @ NUL # ''hello'', inputErr = False, stdout = []\<rparr> =
     (Inl (PanicNumError e), \<lparr>input = ''hello'', inputErr = False, stdout = []\<rparr>))"
  using
    negative_length_accepted [where ty = "''blob''" and ds = "''5''" and rest = "''hello''"
      and s = "\<lparr>input = ''blob -5'' @ NUL # ''hello'', inputErr = False, stdout = []\<rparr>"]
    negative_length_accepted [where ty = "''blob''" and fld = "''-''" and rest = "''hello''"
      and s = "\<lparr>input = ''blob -'' @ NUL # ''hello'', inputErr = False, stdout = []\<rparr>"]
  by (simp add: NUL_def isDecimalInteger_def isDigit_def decimalInteger_def decimalValue_def
      digitVal_def)

section \<open>The tree decoder\<close>

lemma printTreeContent_no_NUL:
  "NUL \<notin> set (input s) \<Longrightarrow>
     printTreeContent s =
       (if inputErr s then Inl LogFatal
        else if input s = [] then Inr () else Inl PanicEndOfMetadata,
        s\<lparr>input := []\<rparr>)"
  by (cases "input s" rule: rev_cases)
     (auto simp: printTreeContent.simps [of s] scanBytesUntilDelimiter_end)

lemma printTreeContent_segment:
  assumes "NUL \<notin> set seg" "input s = seg @ NUL # rest"
  shows "printTreeContent s =
       (if length (Split seg (CHR '' '')) \<noteq> 2 then (Inl PanicComponents, s\<lparr>input := rest\<rparr>)
        else if length rest < 20
        then (Inl (if inputErr s then LogFatal else PanicUnexpectedEOF), s\<lparr>input := []\<rparr>)
        else printTreeContent
               (s\<lparr>input := drop 20 rest,
                   stdout := stdout s @
                     ''fileMode: '' @ Split seg (CHR '' '') ! 0 @
                     '', filename: '' @ Split seg (CHR '' '') ! 1 @
                     '', SHA: '' @ EncodeToString (take 20 rest) @ ''\<newline>''\<rparr>))"
proof -
  have scan: "scanBytesUntilDelimiter s NUL False = (Inr (seg @ [NUL]), s\<lparr>input := rest\<rparr>)"
    using assms by (rule scanBytesUntilDelimiter_found)
  show ?thesis
  proof (cases "length rest < 20")
    case True
    then have "scanCountBytes (s\<lparr>input := rest\<rparr>) ObjectShaLength True =
        (Inl (if inputErr s then LogFatal else PanicUnexpectedEOF), s\<lparr>input := []\<rparr>)"
      using scanCountLoop_short [of rest "s\<lparr>input := rest\<rparr>" 20 1 "[]"]
      by (simp add: scanCountBytes_def ObjectShaLength_def)
    with True show ?thesis
      by (simp add: printTreeContent.simps [of s] scan Let_def)
  next
    case False
    then have "scanCountBytes (s\<lparr>input := rest\<rparr>) ObjectShaLength True =
        (Inr (take 20 rest), s\<lparr>input := drop 20 rest\<rparr>)"
      using scanCountBytes_take [of 20 "s\<lparr>input := rest\<rparr>" True]
      by (simp add: ObjectShaLength_def)
    with False show ?thesis
      by (simp add: printTreeContent.simps [of s] scan Let_def fmtPrint_def)
  qed
qed

lemma printTreeContent_entry:
  assumes "wellFormedEntry e" "input s = encodeEntry e @ rest"
  shows "printTreeContent s =
           printTreeContent (s\<lparr>input := rest, stdout := stdout s @ renderEntry e\<rparr>)"
proof -
  from assms have seg: "NUL \<notin> set (mode e @ CHR '' '' # name e)"
    and inp: "input s = (mode e @ CHR '' '' # name e) @ NUL # (objectHash e @ rest)"
    by (simp_all add: wellFormedEntry_def encodeEntry_def NUL_def)
  from assms have "Split (mode e @ CHR '' '' # name e) (CHR '' '') = [mode e, name e]"
    by (simp add: wellFormedEntry_def Split_two_fields)
  with assms show ?thesis
    by (simp add: printTreeContent_segment [OF seg inp] wellFormedEntry_def renderEntry_def)
qed

lemma printTreeContent_entries:
  "\<forall>e\<in>set es. wellFormedEntry e \<Longrightarrow> input s = concat (map encodeEntry es) @ rest \<Longrightarrow>
     printTreeContent s =
       printTreeContent (s\<lparr>input := rest, stdout := stdout s @ concat (map renderEntry es)\<rparr>)"
proof (induction es arbitrary: s)
  case Nil
  then have "rest = input s" by simp
  then show ?case by simp
next
  case (Cons e es)
  let ?s1 = "s\<lparr>input := concat (map encodeEntry es) @ rest, stdout := stdout s @ renderEntry e\<rparr>"
  from Cons.prems have "printTreeContent s = printTreeContent ?s1"
    by (intro printTreeContent_entry) simp_all
  also from Cons.prems have "\<dots> =
      printTreeContent (?s1\<lparr>input := rest, stdout := stdout ?s1 @ concat (map renderEntry es)\<rparr>)"
    by (intro Cons.IH) simp_all
  finally show ?case by simp
qed

lemma length_EncodeToString: "length (EncodeToString src) = 2 * length src"
  by (induction src) (simp_all add: EncodeToString_def)

lemma hextable_nth: "i < 16 \<Longrightarrow> hextable ! i \<in> set ''0123456789abcdef''"
proof -
  assume "i < 16"
  then have "i < length hextable" by (simp add: hextable_def)
  then have "hextable ! i \<in> set hextable" by (rule nth_mem)
  then show ?thesis by (simp add: hextable_def)
qed

lemma of_char_div_16: "(of_char (v :: char) :: nat) div 16 < 16"
proof -
  have "(of_char v :: nat) < 256" by simp
  then show ?thesis by arith
qed

lemma set_EncodeToString: "set (EncodeToString src) \<subseteq> set ''0123456789abcdef''"
proof (induction src)
  case Nil
  show ?case by (simp add: EncodeToString_def)
next
  case (Cons v src)
  have "hextable ! (of_char v div 16) \<in> set ''0123456789abcdef''"
    by (rule hextable_nth) (rule of_char_div_16)
  moreover have "hextable ! (of_char v mod 16) \<in> set ''0123456789abcdef''"
    by (rule hextable_nth) simp
  ultimately show ?case
    using Cons.IH by (simp add: EncodeToString_def)
qed

lemma printTreeContent_normal_return:
  "printTreeContent s = (Inr (), s') \<Longrightarrow> input s' = [] \<and> \<not> inputErr s'"
proof (induction "length (input s)" arbitrary: s rule: less_induct)
  case less
  show ?case
  proof (cases "NUL \<in> set (input s)")
    case False
    with less.prems show ?thesis
      by (auto simp: printTreeContent_no_NUL split: if_splits)
  next
    case True
    then obtain seg rest where inp: "input s = seg @ NUL # rest" and seg: "NUL \<notin> set seg"
      by (meson split_list_first)
    let ?s1 = "s\<lparr>input := drop 20 rest,
                   stdout := stdout s @
                     ''fileMode: '' @ Split seg (CHR '' '') ! 0 @
                     '', filename: '' @ Split seg (CHR '' '') ! 1 @
                     '', SHA: '' @ EncodeToString (take 20 rest) @ ''\<newline>''\<rparr>"
    from less.prems have "printTreeContent ?s1 = (Inr (), s')"
      by (simp add: printTreeContent_segment [OF seg inp] split: if_splits)
    moreover have "length (input ?s1) < length (input s)"
      by (simp add: inp)
    ultimately show ?thesis
      by (rule less.hyps [rotated])
  qed
qed

lemma hexDigitValue_table: "map hexDigitValue hextable = [0..<16]"
  by (simp add: hextable_def hexDigitValue_def isDigit_def digitVal_def upt_rec)

lemma hexDigitValue_hextable: "i < 16 \<Longrightarrow> hexDigitValue (hextable ! i) = i"
proof -
  assume i: "i < 16"
  then have "i < length hextable"
    by (simp add: hextable_def)
  then have "map hexDigitValue hextable ! i = hexDigitValue (hextable ! i)"
    by (rule nth_map)
  moreover have "[0..<16] ! i = i"
    using i by simp
  ultimately show ?thesis
    by (simp only: hexDigitValue_table)
qed

lemma decodeHex_EncodeToString: "decodeHex (EncodeToString src) = src"
proof (induction src)
  case Nil
  show ?case by (simp add: EncodeToString_def)
next
  case (Cons v src)
  have "(of_char v :: nat) < 256" by simp
  then have hi: "(of_char v :: nat) div 16 < 16" by arith
  have lo: "(of_char v :: nat) mod 16 < 16" by simp
  have "hexDigitValue (hextable ! (of_char v div 16)) * 16 +
        hexDigitValue (hextable ! (of_char v mod 16)) = of_char v"
    by (simp add: hexDigitValue_hextable [OF hi] hexDigitValue_hextable [OF lo])
  with Cons.IH show ?case
    by (simp add: EncodeToString_def)
qed

text \<open>
  Claim C5. On a tree body made of well-formed entries and nothing else, read from a
  stream that ends cleanly, the tree decoder prints one line per entry, in the order of
  the stream, with the mode, the name and the hash of that entry, and returns normally
  with the stream exhausted. The hash is shown as 40 characters out of
  \<^verbatim>\<open>0123456789abcdef\<close> which, read back as hexadecimal, are the 20 bytes. The loop
  returns normally only at the clean end of the stream, where the read up to NUL yields
  nothing. After the well-formed entries, a non-empty segment that the stream ends without
  a NUL byte makes the decoder panic with "Unexpected end of file-metadata", and a
  segment in which the number of spaces is not one makes it panic with
  "fileMetadataComponents len must be 2"; the lines of the entries before it have been
  printed by then.
\<close>

theorem tree_decoder:
  "\<forall>e\<in>set es. wellFormedEntry e \<Longrightarrow>
   (input s = concat (map encodeEntry es) \<and> \<not> inputErr s \<longrightarrow>
      printTreeContent s =
        (Inr (), s\<lparr>input := [], stdout := stdout s @ concat (map renderEntry es)\<rparr>)) \<and>
   (\<forall>e\<in>set es. length (EncodeToString (objectHash e)) = 40 \<and>
      set (EncodeToString (objectHash e)) \<subseteq> set ''0123456789abcdef'' \<and>
      decodeHex (EncodeToString (objectHash e)) = objectHash e) \<and>
   (seg \<noteq> [] \<and> NUL \<notin> set seg \<and> \<not> inputErr s \<and>
    input s = concat (map encodeEntry es) @ seg \<longrightarrow>
      printTreeContent s =
        (Inl PanicEndOfMetadata,
         s\<lparr>input := [], stdout := stdout s @ concat (map renderEntry es)\<rparr>)) \<and>
   (NUL \<notin> set seg \<and> count_list seg (CHR '' '') \<noteq> 1 \<and>
    input s = concat (map encodeEntry es) @ seg @ NUL # rest \<longrightarrow>
      printTreeContent s =
        (Inl PanicComponents,
         s\<lparr>input := rest, stdout := stdout s @ concat (map renderEntry es)\<rparr>)) \<and>
   (\<forall>s'. printTreeContent s = (Inr (), s') \<longrightarrow>
      input s' = [] \<and> \<not> inputErr s' \<and> scanBytesUntilDelimiter s' NUL False = (Inr [], s')) \<and>
   (\<forall>s'. scanBytesUntilDelimiter s NUL False = (Inr [], s') \<longrightarrow>
      printTreeContent s = (Inr (), s'))"
proof (intro conjI impI allI ballI)
  assume wf: "\<forall>e\<in>set es. wellFormedEntry e"
  {
    assume a: "input s = concat (map encodeEntry es) \<and> \<not> inputErr s"
    let ?s1 = "s\<lparr>input := [], stdout := stdout s @ concat (map renderEntry es)\<rparr>"
    from wf a have "printTreeContent s = printTreeContent ?s1"
      using printTreeContent_entries [of es s "[]"] by simp
    also from a have "\<dots> = (Inr (), ?s1)"
      by (simp add: printTreeContent_no_NUL)
    finally show "printTreeContent s = (Inr (), ?s1)" .
  }
  {
    fix e assume "e \<in> set es"
    with wf have "length (objectHash e) = 20" by (simp add: wellFormedEntry_def)
    then show "length (EncodeToString (objectHash e)) = 40"
      by (simp add: length_EncodeToString)
    show "set (EncodeToString (objectHash e)) \<subseteq> set ''0123456789abcdef''"
      by (rule set_EncodeToString)
    show "decodeHex (EncodeToString (objectHash e)) = objectHash e"
      by (rule decodeHex_EncodeToString)
  }
  {
    assume a: "seg \<noteq> [] \<and> NUL \<notin> set seg \<and> \<not> inputErr s \<and>
      input s = concat (map encodeEntry es) @ seg"
    let ?s1 = "s\<lparr>input := seg, stdout := stdout s @ concat (map renderEntry es)\<rparr>"
    from wf a have "printTreeContent s = printTreeContent ?s1"
      using printTreeContent_entries [of es s seg] by simp
    also from a have "\<dots> = (Inl PanicEndOfMetadata, ?s1\<lparr>input := []\<rparr>)"
      by (simp add: printTreeContent_no_NUL)
    finally show "printTreeContent s =
        (Inl PanicEndOfMetadata,
         s\<lparr>input := [], stdout := stdout s @ concat (map renderEntry es)\<rparr>)"
      by simp
  }
  {
    assume a: "NUL \<notin> set seg \<and> count_list seg (CHR '' '') \<noteq> 1 \<and>
      input s = concat (map encodeEntry es) @ seg @ NUL # rest"
    let ?s1 = "s\<lparr>input := seg @ NUL # rest, stdout := stdout s @ concat (map renderEntry es)\<rparr>"
    from wf a have "printTreeContent s = printTreeContent ?s1"
      using printTreeContent_entries [of es s "seg @ NUL # rest"] by simp
    also from a have "\<dots> = (Inl PanicComponents, ?s1\<lparr>input := rest\<rparr>)"
      using printTreeContent_segment [of seg ?s1 rest] by (simp add: length_Split)
    finally show "printTreeContent s =
        (Inl PanicComponents,
         s\<lparr>input := rest, stdout := stdout s @ concat (map renderEntry es)\<rparr>)"
      by simp
  }
  {
    fix s' assume "printTreeContent s = (Inr (), s')"
    then have e: "input s' = [] \<and> \<not> inputErr s'" by (rule printTreeContent_normal_return)
    then show "input s' = []" "\<not> inputErr s'" by simp_all
    from e have "s'\<lparr>input := []\<rparr> = s'" by simp
    with e show "scanBytesUntilDelimiter s' NUL False = (Inr [], s')"
      by (simp add: scanBytesUntilDelimiter_end)
  }
  {
    fix s' assume "scanBytesUntilDelimiter s NUL False = (Inr [], s')"
    then show "printTreeContent s = (Inr (), s')"
      by (simp add: printTreeContent.simps [of s])
  }
qed

theorem tree_decoder_witness:
  "printTreeContent
     \<lparr>input = ''100644 file.txt'' @ NUL #
        [CHR 0x00, CHR 0x01, CHR 0x02, CHR 0x03, CHR 0x04, CHR 0x05, CHR 0x06, CHR 0x07,
         CHR 0x08, CHR 0x09, CHR 0x0A, CHR 0x0B, CHR 0x0C, CHR 0x0D, CHR 0x0E, CHR 0x0F,
         CHR 0x10, CHR 0x11, CHR 0x12, CHR 0x13],
      inputErr = False, stdout = []\<rparr> =
   (Inr (),
    \<lparr>input = [], inputErr = False,
     stdout = ''fileMode: 100644, filename: file.txt, SHA: 000102030405060708090a0b0c0d0e0f10111213\<newline>''\<rparr>)"
  using tree_decoder [where
      es = "[\<lparr>mode = ''100644'', name = ''file.txt'',
              objectHash =
                [CHR 0x00, CHR 0x01, CHR 0x02, CHR 0x03, CHR 0x04, CHR 0x05, CHR 0x06, CHR 0x07,
                 CHR 0x08, CHR 0x09, CHR 0x0A, CHR 0x0B, CHR 0x0C, CHR 0x0D, CHR 0x0E, CHR 0x0F,
                 CHR 0x10, CHR 0x11, CHR 0x12, CHR 0x13]\<rparr>]"
      and s = "\<lparr>input = ''100644 file.txt'' @ NUL #
        [CHR 0x00, CHR 0x01, CHR 0x02, CHR 0x03, CHR 0x04, CHR 0x05, CHR 0x06, CHR 0x07,
         CHR 0x08, CHR 0x09, CHR 0x0A, CHR 0x0B, CHR 0x0C, CHR 0x0D, CHR 0x0E, CHR 0x0F,
         CHR 0x10, CHR 0x11, CHR 0x12, CHR 0x13],
      inputErr = False, stdout = []\<rparr>", THEN conjunct1]
  by (simp add: wellFormedEntry_def encodeEntry_def renderEntry_def EncodeToString_def
      hextable_def NUL_def)

section \<open>Dispatch on the object type\<close>

text \<open>
  The readers and the header decoder change nothing of the state but the position in
  the stream, and the body decoders only append to the standard output.
\<close>

lemma scanBytesUntilDelimiter_state:
  "\<exists>i. snd (scanBytesUntilDelimiter s d t) = s\<lparr>input := i\<rparr>"
proof (cases "d \<in> set (input s)")
  case True
  then obtain xs rest where "input s = xs @ d # rest" "d \<notin> set xs"
    by (meson split_list_first)
  then have "snd (scanBytesUntilDelimiter s d t) = s\<lparr>input := rest\<rparr>"
    by (simp add: scanBytesUntilDelimiter_found)
  then show ?thesis by blast
next
  case False
  then have "snd (scanBytesUntilDelimiter s d t) = s\<lparr>input := []\<rparr>"
    by (simp add: scanBytesUntilDelimiter_end)
  then show ?thesis by blast
qed

lemma scanCountBytes_state:
  "\<exists>i. snd (scanCountBytes s n t) = s\<lparr>input := i\<rparr>"
proof (cases "nat n \<le> length (input s)")
  case True
  then have "snd (scanCountBytes s n t) = s\<lparr>input := drop (nat n) (input s)\<rparr>"
    by (simp add: scanCountBytes_take)
  then show ?thesis by blast
next
  case False
  then have "int (length (input s)) < n + 1 - 1" by simp
  then have "snd (scanCountBytes s n t) = s\<lparr>input := []\<rparr>"
    using scanCountLoop_short [of "input s" s n 1 "[]"]
    by (simp add: scanCountBytes_def)
  then show ?thesis by blast
qed

lemma parseObjectHeader_state:
  "\<exists>i. snd (parseObjectHeader s) = s\<lparr>input := i\<rparr>"
proof -
  have "snd (parseObjectHeader s) = snd (scanBytesUntilDelimiter s NUL True)"
    by (simp add: parseObjectHeader_def Let_def split: prod.splits sum.splits)
  then show ?thesis
    using scanBytesUntilDelimiter_state [of s NUL True] by simp
qed

lemma printCommitContent_stdout:
  "\<exists>out. stdout (snd (printCommitContent s n)) = stdout s @ out"
proof -
  obtain i where "snd (scanCountBytes s n True) = s\<lparr>input := i\<rparr>"
    using scanCountBytes_state by blast
  then show ?thesis
    by (cases "scanCountBytes s n True")
       (auto simp: printCommitContent_def fmtPrint_def split: sum.splits)
qed

lemma printBlobContent_stdout:
  "\<exists>out. stdout (snd (printBlobContent s n)) = stdout s @ out"
proof -
  define count where "count = (if n > TruncatedSize then TruncatedSize else n)"
  obtain i where "snd (scanCountBytes s count True) = s\<lparr>input := i\<rparr>"
    using scanCountBytes_state by blast
  then show ?thesis
    by (cases "scanCountBytes s count True")
       (auto simp: printBlobContent_def fmtPrint_def Let_def count_def split: sum.splits)
qed

lemma printTreeContent_stdout:
  "\<exists>out. stdout (snd (printTreeContent s)) = stdout s @ out"
proof (induction "length (input s)" arbitrary: s rule: less_induct)
  case less
  show ?case
  proof (cases "NUL \<in> set (input s)")
    case False
    then show ?thesis
      by (simp add: printTreeContent_no_NUL)
  next
    case True
    then obtain seg rest where inp: "input s = seg @ NUL # rest" and seg: "NUL \<notin> set seg"
      by (meson split_list_first)
    let ?line = "''fileMode: '' @ Split seg (CHR '' '') ! 0 @
                     '', filename: '' @ Split seg (CHR '' '') ! 1 @
                     '', SHA: '' @ EncodeToString (take 20 rest) @ ''\<newline>''"
    let ?s1 = "s\<lparr>input := drop 20 rest, stdout := stdout s @ ?line\<rparr>"
    have "length (input ?s1) < length (input s)"
      by (simp add: inp)
    then obtain out where "stdout (snd (printTreeContent ?s1)) = stdout ?s1 @ out"
      using less.hyps by blast
    then have "stdout (snd (printTreeContent ?s1)) = stdout s @ ?line @ out"
      by simp
    then show ?thesis
      unfolding printTreeContent_segment [OF seg inp]
      by (auto simp del: append_assoc)
  qed
qed

text \<open>
  Claim C6. For an object whose header names a type other than tree, blob and commit,
  the program prints the line \<^verbatim>\<open>Type: T, len: N\<close>, then the line
  \<^verbatim>\<open>Parsing this tag-type not yet supported\<close>, and returns normally with the stream
  left right behind the header: no byte of the body is read. For every object whose
  header decodes, whatever its type and whether or not the decoding of the body succeeds,
  what the program has printed in the end starts with what was printed before, followed
  by the header summary; anything a body decoder prints comes after it.
\<close>

theorem unsupported_type_and_summary:
  "(NUL \<notin> set ty \<and> CHR '' '' \<notin> set ty \<and>
    ty \<noteq> ''tree'' \<and> ty \<noteq> ''blob'' \<and> ty \<noteq> ''commit'' \<and>
    isDecimalInteger fld \<and> - (2 ^ 63) \<le> decimalInteger fld \<and> decimalInteger fld < 2 ^ 63 \<and>
    input s = ty @ CHR '' '' # fld @ NUL # rest \<longrightarrow>
      printObjectFileContent s =
        (Inr (),
         s\<lparr>input := rest,
            stdout := stdout s @
              ''Type: '' @ ty @ '', len: '' @ formatInt (decimalInteger fld) @ ''\<newline>'' @
              ''Parsing this tag-type not yet supported\<newline>''\<rparr>)) \<and>
   (parseObjectHeader s = (Inr h, s') \<longrightarrow>
      (\<exists>out. stdout (snd (printObjectFileContent s)) =
         stdout s @
         ''Type: '' @ objectType h @ '', len: '' @ formatInt (length' h) @ ''\<newline>'' @ out))"
proof (intro conjI impI)
  assume a: "NUL \<notin> set ty \<and> CHR '' '' \<notin> set ty \<and>
    ty \<noteq> ''tree'' \<and> ty \<noteq> ''blob'' \<and> ty \<noteq> ''commit'' \<and>
    isDecimalInteger fld \<and> - (2 ^ 63) \<le> decimalInteger fld \<and> decimalInteger fld < 2 ^ 63 \<and>
    input s = ty @ CHR '' '' # fld @ NUL # rest"
  then have "parseObjectHeader s =
      (Inr \<lparr>objectType = ty, length' = decimalInteger fld\<rparr>, s\<lparr>input := rest\<rparr>)"
    using parseObjectHeader_integer [of ty fld s rest] by simp
  with a show "printObjectFileContent s =
        (Inr (),
         s\<lparr>input := rest,
            stdout := stdout s @
              ''Type: '' @ ty @ '', len: '' @ formatInt (decimalInteger fld) @ ''\<newline>'' @
              ''Parsing this tag-type not yet supported\<newline>''\<rparr>)"
    by (simp add: printObjectFileContent_def fmtPrint_def)
next
  assume p: "parseObjectHeader s = (Inr h, s')"
  let ?summary = "''Type: '' @ objectType h @ '', len: '' @ formatInt (length' h) @ ''\<newline>''"
  let ?s2 = "fmtPrint s' ?summary"
  obtain i where "s' = s\<lparr>input := i\<rparr>"
    using parseObjectHeader_state [of s] p by auto
  then have s2: "stdout ?s2 = stdout s @ ?summary"
    by (simp add: fmtPrint_def)
  have "\<exists>out. stdout (snd (printObjectFileContent s)) = stdout ?s2 @ out"
    using printTreeContent_stdout [of ?s2] printBlobContent_stdout [of ?s2 "length' h"]
      printCommitContent_stdout [of ?s2 "length' h"]
    by (auto simp: printObjectFileContent_def p Let_def fmtPrint_def)
  then obtain out where "stdout (snd (printObjectFileContent s)) = stdout ?s2 @ out"
    by blast
  then have "stdout (snd (printObjectFileContent s)) = stdout s @ ?summary @ out"
    by (simp only: s2 append_assoc)
  then have "stdout (snd (printObjectFileContent s)) =
      stdout s @
      ''Type: '' @ objectType h @ '', len: '' @ formatInt (length' h) @ ''\<newline>'' @ out"
    by simp
  then show "\<exists>out. stdout (snd (printObjectFileContent s)) =
      stdout s @
      ''Type: '' @ objectType h @ '', len: '' @ formatInt (length' h) @ ''\<newline>'' @ out"
    by blast
qed


theorem unsupported_type_and_summary_witness:
  "printObjectFileContent \<lparr>input = ''tag 5'' @ NUL # ''hello'', inputErr = False, stdout = []\<rparr> =
     (Inr (),
      \<lparr>input = ''hello'', inputErr = False,
       stdout = ''Type: tag, len: 5\<newline>Parsing this tag-type not yet supported\<newline>''\<rparr>) \<and>
   (\<exists>out. stdout (snd (printObjectFileContent
       \<lparr>input = ''commit 9'' @ NUL # ''hello'', inputErr = False, stdout = []\<rparr>)) =
     ''Type: commit, len: 9\<newline>'' @ out)"
proof -
  have f: "formatInt 5 = ''5''" "formatInt 9 = ''9''"
    by (simp_all add: formatInt_def formatUint.simps char_of_eq_iff)
  have a: "printObjectFileContent
      \<lparr>input = ''tag 5'' @ NUL # ''hello'', inputErr = False, stdout = []\<rparr> =
     (Inr (),
      \<lparr>input = ''hello'', inputErr = False,
       stdout = ''Type: tag, len: 5\<newline>Parsing this tag-type not yet supported\<newline>''\<rparr>)"
    using unsupported_type_and_summary [where ty = "''tag''" and fld = "''5''"
      and rest = "''hello''"
      and s = "\<lparr>input = ''tag 5'' @ NUL # ''hello'', inputErr = False, stdout = []\<rparr>",
      THEN conjunct1]
    by (simp add: NUL_def isDecimalInteger_def isDigit_def decimalInteger_def decimalValue_def
        digitVal_def f)
  have p: "parseObjectHeader
      \<lparr>input = ''commit 9'' @ NUL # ''hello'', inputErr = False, stdout = []\<rparr> =
     (Inr \<lparr>objectType = ''commit'', length' = 9\<rparr>,
      \<lparr>input = ''hello'', inputErr = False, stdout = []\<rparr>)"
    using parseObjectHeader_integer [of "''commit''" "''9''"
      "\<lparr>input = ''commit 9'' @ NUL # ''hello'', inputErr = False, stdout = []\<rparr>" "''hello''"]
    by (simp add: NUL_def isDecimalInteger_def isDigit_def decimalInteger_def decimalValue_def
        digitVal_def)
  have b: "\<exists>out. stdout (snd (printObjectFileContent
       \<lparr>input = ''commit 9'' @ NUL # ''hello'', inputErr = False, stdout = []\<rparr>)) =
     ''Type: commit, len: 9\<newline>'' @ out"
    using unsupported_type_and_summary [where h = "\<lparr>objectType = ''commit'', length' = 9\<rparr>"
      and s' = "\<lparr>input = ''hello'', inputErr = False, stdout = []\<rparr>"
      and s = "\<lparr>input = ''commit 9'' @ NUL # ''hello'', inputErr = False, stdout = []\<rparr>",
      THEN conjunct2] p
    by (simp add: f)
  from a b show ?thesis by blast
qed

end
